theory Spec2Isabelle
  imports Complex_Main "HOL-Library.Sublist"
begin

section \<open>The outbound bridge of bridge.js: socket, queue and timers\<close>

text \<open>
  The module-level variables \<^verbatim>\<open>ws\<close>, \<^verbatim>\<open>msgQueue\<close>, \<^verbatim>\<open>idleTimer\<close> and
  \<^verbatim>\<open>CONFIG.COOKIE\<close> become the fields of one record. Every WebSocket object that
  \<^verbatim>\<open>connect()\<close> creates is kept in a store (\<open>sockets\<close>), and \<open>ws\<close> is the index of
  the one the variable refers to (\<open>None\<close> while it is \<^verbatim>\<open>undefined\<close>), because the
  event handlers of an old socket keep running after a new one has been created.

  JavaScript runs each handler to completion on one thread. A handler is modelled as a
  function that takes the instant \<open>now\<close> (milliseconds, the value of \<^verbatim>\<open>Date.now()\<close>) at
  which it runs; all clock readings inside one handler return that instant. Pending
  \<^verbatim>\<open>setTimeout\<close> callbacks are a list of (handle, due time, callback).
  Calls of \<^verbatim>\<open>console.log\<close> and \<^verbatim>\<open>console.error\<close> are left out where printing
  cannot fail; where building the text can throw, that is a branch of the model.
\<close>

datatype readyState = CONNECTING | OPEN | CLOSING | CLOSED

record msg =
  msg_text :: string
  msg_time :: int

datatype timer_cb = ReconnectCb | IdleCb

record websocket =
  readyState :: readyState
  cookie_header :: string
  close_calls :: nat

record bridge =
  COOKIE :: string
  ws :: "nat option"
  sockets :: "websocket list"
  msgQueue :: "msg list"
  idleTimer :: "nat option"
  timers :: "(nat \<times> int \<times> timer_cb) list"
  next_timer :: nat
  sent :: "(nat \<times> string) list"

text \<open>
  The transport is a black box. \<^verbatim>\<open>ws.send(data)\<close> either returns or throws; which of
  the two is decided by the environment, here a predicate on the frames accepted so
  far and the frame offered. A frame that was accepted is appended to \<open>sent\<close>, tagged
  with the socket it went to.
\<close>

type_synonym transport = "(nat \<times> string) list \<Rightarrow> string \<Rightarrow> bool"

text \<open>A handler either returns or throws; both leave a state behind.\<close>

datatype outcome = Returned bridge | Threw bridge

definition ws_readyState :: "bridge \<Rightarrow> readyState option" where
  "ws_readyState s =
     (case ws s of
        None \<Rightarrow> None
      | Some i \<Rightarrow> if i < length (sockets s) then Some (readyState (sockets s ! i)) else None)"

definition set_readyState :: "nat \<Rightarrow> readyState \<Rightarrow> bridge \<Rightarrow> bridge" where
  "set_readyState i r s = s\<lparr>sockets := (sockets s)[i := (sockets s ! i)\<lparr>readyState := r\<rparr>]\<rparr>"

subsection \<open>Timers\<close>

definition setTimeout :: "timer_cb \<Rightarrow> int \<Rightarrow> int \<Rightarrow> bridge \<Rightarrow> nat \<times> bridge" where
  "setTimeout cb delay now s =
     (next_timer s,
      s\<lparr>timers := timers s @ [(next_timer s, now + delay, cb)],
        next_timer := Suc (next_timer s)\<rparr>)"

definition clearTimeout :: "nat \<Rightarrow> bridge \<Rightarrow> bridge" where
  "clearTimeout t s = s\<lparr>timers := filter (\<lambda>(i, due, cb). i \<noteq> t) (timers s)\<rparr>"

definition resetIdleTimer :: "int \<Rightarrow> bridge \<Rightarrow> bridge" where
  "resetIdleTimer now s =
     (let s1 = (case idleTimer s of Some t \<Rightarrow> clearTimeout t s | None \<Rightarrow> s);
          (t, s2) = setTimeout IdleCb (10 * 60 * 1000) now s1
      in s2\<lparr>idleTimer := Some t\<rparr>)"

subsection \<open>Connecting and closing\<close>

definition connect :: "bridge \<Rightarrow> bridge" where
  "connect s =
     (if ws_readyState s = Some OPEN \<or> ws_readyState s = Some CONNECTING then s
      else s\<lparr>sockets := sockets s @
                 [\<lparr>readyState = CONNECTING, cookie_header = COOKIE s, close_calls = 0\<rparr>],
             ws := Some (length (sockets s))\<rparr>)"

text \<open>
  \<^verbatim>\<open>ws.close()\<close> of the library: a socket that is not yet closed starts closing; the
  \<^verbatim>\<open>'close'\<close> event comes later, from the environment. The handlers that call it exist
  only once \<open>ws\<close> is assigned, so the branch \<open>None\<close> is never taken.
\<close>

definition close_socket :: "websocket \<Rightarrow> websocket" where
  "close_socket w =
     w\<lparr>readyState := (if readyState w = CLOSED then CLOSED else CLOSING),
       close_calls := Suc (close_calls w)\<rparr>"

definition ws_close :: "bridge \<Rightarrow> bridge" where
  "ws_close s =
     (case ws s of
        None \<Rightarrow> s
      | Some i \<Rightarrow> s\<lparr>sockets := (sockets s)[i := close_socket (sockets s ! i)]\<rparr>)"

subsection \<open>Rendering numbers\<close>

text \<open>
  \<^verbatim>\<open>latency.toFixed(0)\<close> prints the integer nearest to the number, the larger one of two
  that are equally near. The latency is a whole number of milliseconds divided by
  1000: a double division, whose result is the double nearest to the exact quotient.
  A quotient that ends in .5 is a double itself, and every other quotient is at least
  1/1000 away from a tie, far more than the rounding error of the division, so rounding
  the exact quotient gives the digits JavaScript prints. The same holds for the test
  \<^verbatim>\<open>latency > 5\<close>. The latency is therefore a rational number here. (Beyond 1e21
  \<^verbatim>\<open>toFixed\<close> switches to exponent notation; differences of clock readings stay far
  below that.)
\<close>

fun digits10 :: "nat \<Rightarrow> string" where
  "digits10 n =
     (if n < 10 then [''0123456789'' ! n]
      else digits10 (n div 10) @ [''0123456789'' ! (n mod 10)])"

declare digits10.simps [simp del]

definition toFixed0 :: "rat \<Rightarrow> string" where
  "toFixed0 x =
     (if x < 0 then ''-'' @ digits10 (nat \<lfloor>- x + 1 / 2\<rfloor>)
      else digits10 (nat \<lfloor>x + 1 / 2\<rfloor>))"

subsection \<open>The queue\<close>

text \<open>The text that one iteration of the loop of \<^verbatim>\<open>flushMsgQueue\<close> hands to the socket.\<close>

definition finalText :: "int \<Rightarrow> msg \<Rightarrow> string" where
  "finalText now m =
     (let latency = of_int (now - msg_time m) / 1000
      in if latency > 5 then msg_text m @ '' (delayed '' @ toFixed0 latency @ ''s)''
         else msg_text m)"

text \<open>
  The \<^verbatim>\<open>while\<close> loop: \<^verbatim>\<open>msgQueue.shift()\<close> comes first and \<^verbatim>\<open>ws.send\<close> second, so
  when the send throws the message is already out of the queue.
\<close>

function flush_loop :: "transport \<Rightarrow> int \<Rightarrow> nat \<Rightarrow> bridge \<Rightarrow> outcome" where
  "flush_loop tr now i s =
     (case msgQueue s of
        [] \<Rightarrow> Returned s
      | m # q \<Rightarrow>
          (let s1 = s\<lparr>msgQueue := q\<rparr>
           in if tr (sent s1) (finalText now m)
              then flush_loop tr now i (s1\<lparr>sent := sent s1 @ [(i, finalText now m)]\<rparr>)
              else Threw s1))"
  by pat_completeness auto
termination
  by (relation "measure (\<lambda>(tr, now, i, s). length (msgQueue s))") auto

declare flush_loop.simps [simp del]

definition flushMsgQueue :: "transport \<Rightarrow> int \<Rightarrow> bridge \<Rightarrow> outcome" where
  "flushMsgQueue tr now s =
     (case ws s of
        None \<Rightarrow> Returned s
      | Some i \<Rightarrow>
          if ws_readyState s \<noteq> Some OPEN then Returned s
          else (case flush_loop tr now i s of
                  Threw s' \<Rightarrow> Threw s'
                | Returned s' \<Rightarrow> Returned (resetIdleTimer now s')))"

definition sendToChatroom :: "transport \<Rightarrow> int \<Rightarrow> string \<Rightarrow> bridge \<Rightarrow> outcome" where
  "sendToChatroom tr now txt s =
     (let s1 = s\<lparr>msgQueue := msgQueue s @ [\<lparr>msg_text = txt, msg_time = now\<rparr>]\<rparr>
      in if ws_readyState s1 = Some OPEN then flushMsgQueue tr now s1
         else Returned (connect s1))"

subsection \<open>Events of a socket and of the timers\<close>

text \<open>
  The library moves the socket that emits \<^verbatim>\<open>'open'\<close> to OPEN and the one that emits
  \<^verbatim>\<open>'close'\<close> to CLOSED before it calls the handler. The handlers themselves look at
  the variable \<^verbatim>\<open>ws\<close>, not at the socket that emitted the event. An event that the
  library cannot emit (an unknown socket, \<^verbatim>\<open>'open'\<close> on a socket that is not connecting,
  \<^verbatim>\<open>'close'\<close> on a closed one) changes nothing.
\<close>

definition on_open :: "transport \<Rightarrow> int \<Rightarrow> nat \<Rightarrow> bridge \<Rightarrow> outcome" where
  "on_open tr now i s =
     (if i < length (sockets s) \<and> readyState (sockets s ! i) = CONNECTING
      then flushMsgQueue tr now (set_readyState i OPEN s)
      else Returned s)"

definition on_close :: "int \<Rightarrow> nat \<Rightarrow> bridge \<Rightarrow> bridge" where
  "on_close now i s =
     (if i < length (sockets s) \<and> readyState (sockets s ! i) \<noteq> CLOSED
      then snd (setTimeout ReconnectCb 5000 now (set_readyState i CLOSED s))
      else s)"

definition on_error :: "nat \<Rightarrow> bridge \<Rightarrow> bridge" where
  "on_error i s = (if i < length (sockets s) then ws_close s else s)"

text \<open>The two callbacks handed to \<^verbatim>\<open>setTimeout\<close>.\<close>

definition run_cb :: "timer_cb \<Rightarrow> bridge \<Rightarrow> bridge" where
  "run_cb cb s =
     (case cb of
        ReconnectCb \<Rightarrow> if msgQueue s \<noteq> [] then connect s else s
      | IdleCb \<Rightarrow> if ws_readyState s = Some OPEN then ws_close s else s)"

text \<open>
  The event loop runs a pending callback once, and never before it is due: \<open>fire\<close> is
  \<open>None\<close> when the handle is not pending or its time has not come.
\<close>

definition fire :: "int \<Rightarrow> nat \<Rightarrow> bridge \<Rightarrow> bridge option" where
  "fire now t s =
     (case find (\<lambda>(i, due, cb). i = t) (timers s) of
        None \<Rightarrow> None
      | Some (i, due, cb) \<Rightarrow>
          if due \<le> now then Some (run_cb cb (clearTimeout t s)) else None)"

datatype event = Enqueue string | WsOpen nat | WsClose nat | WsError nat | Timer nat

definition step :: "transport \<Rightarrow> int \<times> event \<Rightarrow> bridge \<Rightarrow> outcome" where
  "step tr e s =
     (case e of
        (now, Enqueue txt) \<Rightarrow> sendToChatroom tr now txt s
      | (now, WsOpen i) \<Rightarrow> on_open tr now i s
      | (now, WsClose i) \<Rightarrow> Returned (on_close now i s)
      | (now, WsError i) \<Rightarrow> Returned (on_error i s)
      | (now, Timer t) \<Rightarrow> (case fire now t s of None \<Rightarrow> Returned s | Some s' \<Rightarrow> Returned s'))"

text \<open>A run of the process: a handler that throws ends it.\<close>

fun run :: "transport \<Rightarrow> (int \<times> event) list \<Rightarrow> bridge \<Rightarrow> outcome" where
  "run tr [] s = Returned s"
| "run tr (e # es) s =
     (case step tr e s of Returned s' \<Rightarrow> run tr es s' | Threw s' \<Rightarrow> Threw s')"

text \<open>The state after the module has been loaded: the last lines call \<^verbatim>\<open>connect()\<close>.\<close>

definition start :: "string \<Rightarrow> bridge" where
  "start cookie =
     connect \<lparr>COOKIE = cookie, ws = None, sockets = [], msgQueue = [], idleTimer = None,
              timers = [], next_timer = 0, sent = []\<rparr>"

fun enqueued :: "(int \<times> event) list \<Rightarrow> string list" where
  "enqueued [] = []"
| "enqueued ((now, Enqueue txt) # es) = txt # enqueued es"
| "enqueued (e # es) = enqueued es"

subsection \<open>Notions used to state the properties\<close>

definition state_of :: "outcome \<Rightarrow> bridge" where
  "state_of out = (case out of Returned s \<Rightarrow> s | Threw s \<Rightarrow> s)"

definition rendering_of :: "string \<Rightarrow> string \<Rightarrow> bool" where
  "rendering_of txt frame = (\<exists>now t. frame = finalText now \<lparr>msg_text = txt, msg_time = t\<rparr>)"

definition fifo :: "string list \<Rightarrow> bridge \<Rightarrow> bool" where
  "fifo E s =
     (\<exists>ts. E = ts @ map msg_text (msgQueue s) \<and> list_all2 rendering_of ts (map snd (sent s)))"

definition pending_idle :: "bridge \<Rightarrow> (nat \<times> int \<times> timer_cb) list" where
  "pending_idle s = filter (\<lambda>(i, due, cb). cb = IdleCb) (timers s)"

definition timers_ok :: "bridge \<Rightarrow> bool" where
  "timers_ok s =
     (distinct (map fst (timers s)) \<and>
      (\<forall>(i, due, cb) \<in> set (timers s).
         i < next_timer s \<and> (cb = IdleCb \<longrightarrow> idleTimer s = Some i)))"

definition accept_all :: transport where
  "accept_all h f = True"

definition s_two_queued :: bridge where
  "s_two_queued =
     \<lparr>COOKIE = ''c'', ws = Some 0,
      sockets = [\<lparr>readyState = OPEN, cookie_header = ''c'', close_calls = 0\<rparr>],
      msgQueue = [\<lparr>msg_text = ''A'', msg_time = 0\<rparr>, \<lparr>msg_text = ''B'', msg_time = 2000\<rparr>],
      idleTimer = None, timers = [], next_timer = 0, sent = []\<rparr>"

definition reject_A :: transport where
  "reject_A h f = (f \<noteq> ''A'')"

definition trace_lost :: "(int \<times> event) list" where
  "trace_lost = [(0, Enqueue ''A''), (0, Enqueue ''B''), (10, WsOpen 0)]"

definition s_three_queued :: bridge where
  "s_three_queued =
     \<lparr>COOKIE = ''c'', ws = Some 0,
      sockets = [\<lparr>readyState = OPEN, cookie_header = ''c'', close_calls = 0\<rparr>],
      msgQueue = [\<lparr>msg_text = ''B'', msg_time = 0\<rparr>, \<lparr>msg_text = ''A'', msg_time = 0\<rparr>,
                  \<lparr>msg_text = ''C'', msg_time = 0\<rparr>],
      idleTimer = None, timers = [], next_timer = 0, sent = []\<rparr>"

definition trace_reconnect :: "(int \<times> event) list" where
  "trace_reconnect =
     [(0, Enqueue ''A''), (10, WsOpen 0), (20, WsClose 0),
      (30, Enqueue ''B''), (40, Enqueue ''C''), (50, WsOpen 1)]"

definition s_open_idle :: bridge where
  "s_open_idle =
     \<lparr>COOKIE = ''c'', ws = Some 0,
      sockets = [\<lparr>readyState = OPEN, cookie_header = ''c'', close_calls = 0\<rparr>],
      msgQueue = [], idleTimer = Some 0, timers = [(0, 600000, IdleCb)], next_timer = 1, sent = []\<rparr>"



definition trace_enqueue_closed :: "(int \<times> event) list" where
  "trace_enqueue_closed = [(0, WsOpen 0), (1000, WsClose 0), (2000, Enqueue ''A'')]"

section \<open>The log line patterns of bridge.js\<close>

text \<open>
  A line is the list of its UTF-8 bytes. The patterns single out ASCII characters only
  (\<^verbatim>\<open>\d\<close>, \<^verbatim>\<open>\w\<close>, brackets, the letters of the fixed phrases), so matching byte by
  byte gives the match JavaScript finds on UTF-16 code units. The one class that looks
  beyond ASCII is \<^verbatim>\<open>.\<close>: it refuses the four line terminators of JavaScript, which are
  LF, CR and the separators U+2028 and U+2029. In UTF-8 the two separators are the
  bytes E2 80 A8 and E2 80 A9, so whether a class accepts a byte depends on the byte
  and, for \<^verbatim>\<open>.\<close>, on the two bytes after it.

  The regular expressions of the source use literals, single-character classes,
  \<^verbatim>\<open>{n}\<close>, greedy \<^verbatim>\<open>+\<close> and \<^verbatim>\<open>*\<close> on a class, one optional group, alternation
  and capture groups. A backtracking matcher tries alternatives in a fixed order and
  returns the first way to match; \<open>rmatch\<close> lists all ways in that order, each as the
  rest of the input and the captures made.
\<close>

datatype cls = Ch char | Digit | Word | Dot | Not char

definition digit_char :: "char \<Rightarrow> bool" where
  "digit_char x = (x \<in> set ''0123456789'')"

definition word_char :: "char \<Rightarrow> bool" where
  "word_char x =
     (x \<in> set ''abcdefghijklmnopqrstuvwxyzABCDEFGHIJKLMNOPQRSTUVWXYZ0123456789_'')"

definition separator_at :: "string \<Rightarrow> bool" where
  "separator_at s =
     (prefix [CHR 0xE2, CHR 0x80, CHR 0xA8] s \<or> prefix [CHR 0xE2, CHR 0x80, CHR 0xA9] s)"

text \<open>\<open>is_cls c x xs\<close>: the class accepts the character \<open>x\<close>, which \<open>xs\<close> follows.\<close>

fun is_cls :: "cls \<Rightarrow> char \<Rightarrow> string \<Rightarrow> bool" where
  "is_cls (Ch c) x xs = (x = c)"
| "is_cls Digit x xs = digit_char x"
| "is_cls Word x xs = word_char x"
| "is_cls Dot x xs = (x \<noteq> CHR 0x0A \<and> x \<noteq> CHR 0x0D \<and> \<not> separator_at (x # xs))"
| "is_cls (Not c) x xs = (x \<noteq> c)"

datatype rx =
    Lit string
  | One cls
  | Rep nat cls
  | Plus cls
  | Star cls
  | Opt rx
  | Alt rx rx
  | Seq rx rx
  | Grp nat rx

type_synonym caps = "(nat \<times> string) list"

text \<open>What is left of the input after a greedy \<^verbatim>\<open>c*\<close>: the longest run first.\<close>

fun greedy :: "cls \<Rightarrow> string \<Rightarrow> string list" where
  "greedy c [] = [[]]"
| "greedy c (x # xs) = (if is_cls c x xs then greedy c xs @ [x # xs] else [x # xs])"

text \<open>What is left after exactly \<open>n\<close> characters of a class, if the input starts with them.\<close>

fun rep_cls :: "nat \<Rightarrow> cls \<Rightarrow> string \<Rightarrow> string option" where
  "rep_cls 0 c s = Some s"
| "rep_cls (Suc n) c [] = None"
| "rep_cls (Suc n) c (x # xs) = (if is_cls c x xs then rep_cls n c xs else None)"

fun rmatch :: "rx \<Rightarrow> string \<Rightarrow> caps \<Rightarrow> (string \<times> caps) list" where
  "rmatch (Lit w) s k = (if prefix w s then [(drop (length w) s, k)] else [])"
| "rmatch (One c) s k =
     (case s of [] \<Rightarrow> [] | x # xs \<Rightarrow> if is_cls c x xs then [(xs, k)] else [])"
| "rmatch (Rep n c) s k = (case rep_cls n c s of None \<Rightarrow> [] | Some r \<Rightarrow> [(r, k)])"
| "rmatch (Plus c) s k =
     (case s of
        [] \<Rightarrow> []
      | x # xs \<Rightarrow> if is_cls c x xs then map (\<lambda>r. (r, k)) (greedy c xs) else [])"
| "rmatch (Star c) s k = map (\<lambda>r. (r, k)) (greedy c s)"
| "rmatch (Opt r) s k = rmatch r s k @ [(s, k)]"
| "rmatch (Alt r1 r2) s k = rmatch r1 s k @ rmatch r2 s k"
| "rmatch (Seq r1 r2) s k = concat (map (\<lambda>(s', k'). rmatch r2 s' k') (rmatch r1 s k))"
| "rmatch (Grp n r) s k =
     map (\<lambda>(s', k'). (s', (n, take (length s - length s') s) # k')) (rmatch r s k)"

text \<open>
  \<^verbatim>\<open>line.match(re)\<close> without the \<^verbatim>\<open>g\<close> flag: the first start position at which
  the expression matches, and there the first way to match. \<open>grp k n\<close> is \<^verbatim>\<open>match[n]\<close>
  as a template literal prints it.
\<close>

fun search :: "rx \<Rightarrow> string \<Rightarrow> caps option" where
  "search r [] = (case rmatch r [] [] of [] \<Rightarrow> None | (s', k) # _ \<Rightarrow> Some k)"
| "search r (x # xs) =
     (case rmatch r (x # xs) [] of [] \<Rightarrow> search r xs | (s', k) # _ \<Rightarrow> Some k)"

definition grp :: "caps \<Rightarrow> nat \<Rightarrow> string" where
  "grp k n = (case map_of k n of Some v \<Rightarrow> v | None \<Rightarrow> ''undefined'')"

fun str_includes :: "string \<Rightarrow> string \<Rightarrow> bool" where
  "str_includes [] w = (w = [])"
| "str_includes (x # xs) w = (prefix w (x # xs) \<or> str_includes xs w)"

text \<open>A sequence and an alternation of several parts; the empty one matches the empty word.\<close>

fun seqs :: "rx list \<Rightarrow> rx" where
  "seqs [] = Lit []"
| "seqs [r] = r"
| "seqs (r # rs) = Seq r (seqs rs)"

fun alts :: "rx list \<Rightarrow> rx" where
  "alts [] = Lit []"
| "alts [r] = r"
| "alts (r # rs) = Alt r (alts rs)"

subsection \<open>The six expressions of \<^verbatim>\<open>handleLogLine\<close>\<close>

text \<open>\<^verbatim>\<open>\[\d{2}:\d{2}:\d{2}\]\<close>, the start of every expression.\<close>

definition stamp :: "rx list" where
  "stamp = [Lit ''['', Rep 2 Digit, Lit '':'', Rep 2 Digit, Lit '':'', Rep 2 Digit, Lit '']'']"

definition chatRe :: rx where
  "chatRe =
     seqs (stamp @
       [Lit '' [Async Chat Thread - #'', Plus Digit, Lit ''/INFO]: '',
        Opt (seqs [Lit ''['', Plus (Not CHR '']''), Lit ''] '']),
        Lit ''<'', Grp 1 (Plus (Not CHR ''>'')), Lit ''> '', Grp 2 (Plus Dot)])"

definition joinRe :: rx where
  "joinRe =
     seqs (stamp @
       [Lit '' [Server thread/INFO]: '', Grp 1 (Plus Word), Lit '' joined the game''])"

definition leaveRe :: rx where
  "leaveRe =
     seqs (stamp @
       [Lit '' [Server thread/INFO]: '', Grp 1 (Plus Word), Lit '' left the game''])"

definition welcome_tail :: string where
  "welcome_tail =
     '', sunshine! Just wanted to send a little virtual hug your way. '' @
     ''Hope your day is as awesome as you are! '' @
     ''Have a fantastic time here on Salmonized Workspace!''"

definition welcomeRe :: rx where
  "welcomeRe =
     seqs (stamp @
       [Lit '' [Server thread/INFO]: Hey '', Grp 1 (Plus Word), Lit welcome_tail])"

definition advRe :: rx where
  "advRe =
     seqs (stamp @
       [Lit '' [Server thread/INFO]: '', Grp 1 (Plus Word), Lit '' '',
        Grp 2 (alts [Lit ''has made the advancement'', Lit ''has reached the goal'',
                     Lit ''has completed the challenge'']),
        Lit '' ['', Grp 3 (Plus Dot), Lit '']''])"

definition verbs :: "string list" where
  "verbs =
     [''was'', ''walked'', ''drowned'', ''died'', ''experienced'', ''blew'', ''hit'', ''fell'',
      ''went'', ''burned'', ''tried'', ''discovered'', ''froze'', ''starved'',
      ''suffocated'', ''left'', ''withered'', ''didn'' @ [CHR 0x27] @ ''t'']"

definition deathRe :: rx where
  "deathRe =
     seqs (stamp @
       [Lit '' [Server thread/INFO]: '', Grp 1 (Plus Word), Lit '' '',
        Grp 2 (Seq (alts (map Lit verbs)) (Star Dot))])"

subsection \<open>\<^verbatim>\<open>handleLogLine\<close>\<close>

text \<open>
  The function tests the expressions one after the other and calls \<^verbatim>\<open>sendToChatroom\<close>
  with the text of the first that matches. \<open>logLineEvent\<close> is that cascade without the
  call: the branch taken and the text built, or \<open>None\<close> when the function returns
  without a call.
\<close>

datatype rule = Chat | Join | Leave | Welcome | Advancement | Death

definition logLineEvent :: "string \<Rightarrow> (rule \<times> string) option" where
  "logLineEvent line =
     (if \<not> str_includes line ''/INFO]'' then None
      else case search chatRe line of
        Some k \<Rightarrow> Some (Chat, ''[CHAT] <'' @ grp k 1 @ ''> '' @ grp k 2)
      | None \<Rightarrow>
      (case search joinRe line of
        Some k \<Rightarrow> Some (Join, ''[INFO] '' @ grp k 1 @ '' joined the game'')
      | None \<Rightarrow>
      (case search leaveRe line of
        Some k \<Rightarrow> Some (Leave, ''[INFO] '' @ grp k 1 @ '' left the game'')
      | None \<Rightarrow>
      (case search welcomeRe line of
        Some k \<Rightarrow> Some (Welcome, ''[INFO] Hey '' @ grp k 1 @ welcome_tail)
      | None \<Rightarrow>
      (case search advRe line of
        Some k \<Rightarrow>
          Some (Advancement, ''[INFO] '' @ grp k 1 @ '' '' @ grp k 2 @ '' ['' @ grp k 3 @ '']'')
      | None \<Rightarrow>
      (case search deathRe line of
        Some k \<Rightarrow> Some (Death, ''[INFO] '' @ grp k 1 @ '' '' @ grp k 2)
      | None \<Rightarrow> None))))))"


text \<open>
  The longest prefix of a string made of characters of a class, and the test that
  a whole string is: for \<^verbatim>\<open>.\<close> this says that the string holds no line terminator.
\<close>

fun while_cls :: "cls \<Rightarrow> string \<Rightarrow> string" where
  "while_cls c [] = []"
| "while_cls c (x # xs) = (if is_cls c x xs then x # while_cls c xs else [])"

fun all_cls :: "cls \<Rightarrow> string \<Rightarrow> bool" where
  "all_cls c [] = True"
| "all_cls c (x # xs) = (is_cls c x xs \<and> all_cls c xs)"



subsection \<open>Notions used to state the properties of the patterns\<close>

definition regex_of :: "rule \<Rightarrow> rx" where
  "regex_of r =
     (case r of Chat \<Rightarrow> chatRe | Join \<Rightarrow> joinRe | Leave \<Rightarrow> leaveRe
      | Welcome \<Rightarrow> welcomeRe | Advancement \<Rightarrow> advRe | Death \<Rightarrow> deathRe)"

definition render :: "rule \<Rightarrow> caps \<Rightarrow> string" where
  "render r k =
     (case r of
        Chat \<Rightarrow> ''[CHAT] <'' @ grp k 1 @ ''> '' @ grp k 2
      | Join \<Rightarrow> ''[INFO] '' @ grp k 1 @ '' joined the game''
      | Leave \<Rightarrow> ''[INFO] '' @ grp k 1 @ '' left the game''
      | Welcome \<Rightarrow> ''[INFO] Hey '' @ grp k 1 @ welcome_tail
      | Advancement \<Rightarrow> ''[INFO] '' @ grp k 1 @ '' '' @ grp k 2 @ '' ['' @ grp k 3 @ '']''
      | Death \<Rightarrow> ''[INFO] '' @ grp k 1 @ '' '' @ grp k 2)"

definition rule_order :: "rule list" where
  "rule_order = [Chat, Join, Leave, Welcome, Advancement, Death]"

definition earlier :: "rule \<Rightarrow> rule list" where
  "earlier r = takeWhile (\<lambda>x. x \<noteq> r) rule_order"

definition line_left_hurry :: string where
  "line_left_hurry = ''[12:00:00] [Server thread/INFO]: Steve left the game in a hurry''"


definition line_separator :: string where
  "line_separator =
     ''[12:00:00] [Server thread/INFO]: Steve was slain'' @ [CHR 0xE2, CHR 0x80, CHR 0xA8] @
     ''by Zombie''"

section \<open>Values of the JavaScript runtime\<close>

text \<open>
  What \<^verbatim>\<open>JSON.parse\<close> returns. Numbers are whole numbers here; an object is the list of
  its properties, each key once. \<^verbatim>\<open>JSON.parse\<close> itself, \<^verbatim>\<open>atob\<close> and
  \<^verbatim>\<open>decodeURIComponent\<close> are functions of the runtime, not of the repository: they are
  parameters of the model, \<open>None\<close> standing for the exception they throw.
\<close>

datatype json =
    JNull
  | JBool bool
  | JNum int
  | JStr string
  | JArr "json list"
  | JObj "(string \<times> json) list"

datatype 'a js = Ok 'a | Throws

record runtime =
  JSON_parse :: "string \<Rightarrow> json option"
  atob :: "string \<Rightarrow> string option"
  decodeURIComponent :: "string \<Rightarrow> string option"
  ToNumber :: "json \<Rightarrow> int option"

text \<open>The test \<^verbatim>\<open>if (v)\<close>; \<open>None\<close> is \<^verbatim>\<open>undefined\<close>.\<close>

fun truthy :: "json \<Rightarrow> bool" where
  "truthy JNull = False"
| "truthy (JBool b) = b"
| "truthy (JNum n) = (n \<noteq> 0)"
| "truthy (JStr s) = (s \<noteq> [])"
| "truthy (JArr xs) = True"
| "truthy (JObj ps) = True"

definition truthy_opt :: "json option \<Rightarrow> bool" where
  "truthy_opt v = (case v of None \<Rightarrow> False | Some x \<Rightarrow> truthy x)"

text \<open>
  \<^verbatim>\<open>data.name\<close> for the names the source reads (\<^verbatim>\<open>command\<close>, \<^verbatim>\<open>exp\<close>, \<^verbatim>\<open>success\<close>,
  \<^verbatim>\<open>token\<close>): a TypeError on \<^verbatim>\<open>null\<close>, the property of an object, and \<^verbatim>\<open>undefined\<close>
  on every other value, none of which has a property of these names.
\<close>

fun get_prop :: "json \<Rightarrow> string \<Rightarrow> json option js" where
  "get_prop JNull name = Throws"
| "get_prop (JObj ps) name = Ok (map_of ps name)"
| "get_prop v name = Ok None"

text \<open>
  The conversion to a string that a template literal makes of a value that came out of
  \<^verbatim>\<open>JSON.parse\<close> throws a TypeError in one case: an object that has a property named
  \<^verbatim>\<open>toString\<close> of its own. That property is no function, so the conversion goes on to
  \<^verbatim>\<open>valueOf\<close>, which gives no primitive value either. An array is joined from the
  conversions of its elements (\<^verbatim>\<open>null\<close> prints as the empty string), so it throws when
  one of them does.
\<close>

fun stringifies :: "json \<Rightarrow> bool" where
  "stringifies (JObj ps) = (map_of ps ''toString'' = None)"
| "stringifies (JArr xs) = (\<forall>x \<in> set xs. stringifies x)"
| "stringifies v = True"

text \<open>An environment variable is \<^verbatim>\<open>undefined\<close> or a string; the empty string is falsy too.\<close>

definition is_set :: "string option \<Rightarrow> bool" where
  "is_set v = (case v of None \<Rightarrow> False | Some s \<Rightarrow> s \<noteq> [])"

section \<open>The HTTP relay of bridge.js\<close>

record relay_config =
  BRIDGE_TOKEN :: "string option"
  RCON_PASSWORD :: "string option"

record request =
  req_method :: string
  req_url :: string
  authorization :: "string option"
  chunks :: "string list"

record response =
  status :: nat
  res_body :: string

text \<open>
  The remote console is a collaborator: \<^verbatim>\<open>Rcon.connect\<close>, \<^verbatim>\<open>rcon.send\<close> and
  \<^verbatim>\<open>rcon.end\<close> each resolve or reject, as the environment decides; \<^verbatim>\<open>rcon.send\<close>
  resolves to a string. A rejection carries an error object, or \<^verbatim>\<open>null\<close> or
  \<^verbatim>\<open>undefined\<close>. The model records the calls made.
\<close>

datatype rcon_call = RconConnect | RconSend json | RconEnd

datatype settled = Resolves | RejectsError | RejectsNullish

record rcon_env =
  rc_connect :: settled
  rc_send :: "json \<Rightarrow> settled"
  rc_end :: settled

text \<open>
  \<^verbatim>\<open>sendRconCommand\<close> returns without a call when no password is configured. Its
  \<^verbatim>\<open>try\<close>/\<^verbatim>\<open>catch\<close> takes every rejection and prints \<^verbatim>\<open>error.message\<close>; reading
  that property throws when the rejection carried \<^verbatim>\<open>null\<close> or \<^verbatim>\<open>undefined\<close>, and only
  then does the function throw. The result is the calls made and whether it threw.
\<close>

definition catch_throws :: "settled \<Rightarrow> bool" where
  "catch_throws r = (r = RejectsNullish)"

definition sendRconCommand ::
  "relay_config \<Rightarrow> rcon_env \<Rightarrow> json \<Rightarrow> rcon_call list \<times> bool"
where
  "sendRconCommand cfg env command =
     (if \<not> is_set (RCON_PASSWORD cfg) then ([], False)
      else if rc_connect env \<noteq> Resolves
      then ([RconConnect], catch_throws (rc_connect env))
      else if rc_send env command \<noteq> Resolves
      then ([RconConnect, RconSend command], catch_throws (rc_send env command))
      else if rc_end env \<noteq> Resolves
      then ([RconConnect, RconSend command, RconEnd], catch_throws (rc_end env))
      else ([RconConnect, RconSend command, RconEnd], False))"

text \<open>The header value the handler compares with: \<^verbatim>\<open>`Bearer ${CONFIG.BRIDGE_TOKEN}`\<close>.\<close>

definition bearer :: "string \<Rightarrow> string" where
  "bearer t = ''Bearer '' @ t"

text \<open>
  The request handler, with the body complete: the handler of \<^verbatim>\<open>'end'\<close> runs on the
  concatenation of the chunks received. Inside its \<^verbatim>\<open>try\<close> the command is printed
  through a template literal before \<^verbatim>\<open>sendRconCommand\<close> is called, so a command that
  cannot be converted to a string ends in the \<^verbatim>\<open>catch\<close> without a call of the console.
\<close>

definition httpServer ::
  "relay_config \<Rightarrow> runtime \<Rightarrow> rcon_env \<Rightarrow> request \<Rightarrow> response \<times> rcon_call list"
where
  "httpServer cfg rt env req =
     (if req_method req = ''POST'' \<and> req_url req = ''/''
      then
        if is_set (BRIDGE_TOKEN cfg) \<and>
           authorization req \<noteq> map_option bearer (BRIDGE_TOKEN cfg)
        then (\<lparr>status = 401, res_body = ''Unauthorized''\<rparr>, [])
        else (case JSON_parse rt (concat (chunks req)) of
                None \<Rightarrow> (\<lparr>status = 500, res_body = ''Internal Error''\<rparr>, [])
              | Some data \<Rightarrow>
                  (case get_prop data ''command'' of
                     Throws \<Rightarrow> (\<lparr>status = 500, res_body = ''Internal Error''\<rparr>, [])
                   | Ok None \<Rightarrow> (\<lparr>status = 400, res_body = ''Missing command''\<rparr>, [])
                   | Ok (Some c) \<Rightarrow>
                       if \<not> truthy c
                       then (\<lparr>status = 400, res_body = ''Missing command''\<rparr>, [])
                       else if \<not> stringifies c
                       then (\<lparr>status = 500, res_body = ''Internal Error''\<rparr>, [])
                       else (case sendRconCommand cfg env c of
                               (calls, True) \<Rightarrow>
                                 (\<lparr>status = 500, res_body = ''Internal Error''\<rparr>, calls)
                             | (calls, False) \<Rightarrow>
                                 (\<lparr>status = 200, res_body = ''OK''\<rparr>, calls))))
      else (\<lparr>status = 404, res_body = ''Not Found''\<rparr>, []))"

subsection \<open>Notions used to state the properties of the relay\<close>

definition authorized :: "relay_config \<Rightarrow> request \<Rightarrow> bool" where
  "authorized cfg req =
     (req_method req = ''POST'' \<and> req_url req = ''/'' \<and>
      (\<not> is_set (BRIDGE_TOKEN cfg) \<or>
       authorization req = map_option bearer (BRIDGE_TOKEN cfg)))"

definition carries :: "runtime \<Rightarrow> request \<Rightarrow> json \<Rightarrow> bool" where
  "carries rt req c =
     (\<exists>data. JSON_parse rt (concat (chunks req)) = Some data \<and>
             get_prop data ''command'' = Ok (Some c) \<and> truthy c)"

definition ok_200 :: response where
  "ok_200 = \<lparr>status = 200, res_body = ''OK''\<rparr>"

definition error_500 :: response where
  "error_500 = \<lparr>status = 500, res_body = ''Internal Error''\<rparr>"

definition rcon_succeeds :: "rcon_env \<Rightarrow> json \<Rightarrow> bool" where
  "rcon_succeeds env c =
     (rc_connect env = Resolves \<and> rc_send env c = Resolves \<and> rc_end env = Resolves)"

definition cfg_demo :: relay_config where
  "cfg_demo = \<lparr>BRIDGE_TOKEN = Some ''s3cret'', RCON_PASSWORD = Some ''pw''\<rparr>"

definition body_list :: string where
  "body_list = ''{'' @ [CHR 0x22] @ ''command'' @ [CHR 0x22] @ '':'' @
               [CHR 0x22] @ ''list'' @ [CHR 0x22] @ ''}''"

definition body_toString :: string where
  "body_toString = ''{'' @ [CHR 0x22] @ ''command'' @ [CHR 0x22] @ '':{'' @
                   [CHR 0x22] @ ''toString'' @ [CHR 0x22] @ '':0}}''"

definition parse_demo :: "string \<Rightarrow> json option" where
  "parse_demo b =
     (if b = body_list then Some (JObj [(''command'', JStr ''list'')])
      else if b = body_toString then Some (JObj [(''command'', JObj [(''toString'', JNum 0)])])
      else if b = ''{}'' then Some (JObj [])
      else if b = ''null'' then Some JNull
      else None)"

definition rt_demo :: runtime where
  "rt_demo =
     \<lparr>JSON_parse = parse_demo, atob = (\<lambda>s. None), decodeURIComponent = (\<lambda>s. None),
      ToNumber = (\<lambda>v. None)\<rparr>"

definition rcon_up :: rcon_env where
  "rcon_up = \<lparr>rc_connect = Resolves, rc_send = (\<lambda>c. Resolves), rc_end = Resolves\<rparr>"

definition rcon_down :: rcon_env where
  "rcon_down = \<lparr>rc_connect = RejectsError, rc_send = (\<lambda>c. Resolves), rc_end = Resolves\<rparr>"

definition rcon_send_fails :: rcon_env where
  "rcon_send_fails =
     \<lparr>rc_connect = Resolves, rc_send = (\<lambda>c. RejectsError), rc_end = Resolves\<rparr>"

definition rcon_nullish :: rcon_env where
  "rcon_nullish =
     \<lparr>rc_connect = RejectsNullish, rc_send = (\<lambda>c. Resolves), rc_end = Resolves\<rparr>"

definition post :: "string option \<Rightarrow> string \<Rightarrow> request" where
  "post auth b = \<lparr>req_method = ''POST'', req_url = ''/'', authorization = auth, chunks = [b]\<rparr>"

section \<open>The cookie renewal of bridge.js\<close>

text \<open>
  \<^verbatim>\<open>CONFIG.COOKIE\<close> and the content of the \<^verbatim>\<open>.env\<close> file (\<open>None\<close> when the file does
  not exist) are the state the renewal reads and writes.
\<close>

record store =
  CONFIG_COOKIE :: string
  env_file :: "string option"

subsection \<open>\<^verbatim>\<open>parseJwt\<close>\<close>

text \<open>\<^verbatim>\<open>s.split(c)\<close> for a single character: always at least one part.\<close>

fun split_on :: "char \<Rightarrow> string \<Rightarrow> string list" where
  "split_on c [] = [[]]"
| "split_on c (x # xs) =
     (case split_on c xs of
        [] \<Rightarrow> [[x]]
      | p # ps \<Rightarrow> if x = c then [] # p # ps else (x # p) # ps)"

text \<open>\<^verbatim>\<open>'%' + ('00' + c.charCodeAt(0).toString(16)).slice(-2)\<close> for a character below 256.\<close>

definition percent :: "char \<Rightarrow> string" where
  "percent c =
     [CHR ''%'', ''0123456789abcdef'' ! (of_char c div 16), ''0123456789abcdef'' ! (of_char c mod 16)]"

definition parseJwt :: "runtime \<Rightarrow> string \<Rightarrow> json option" where
  "parseJwt rt token =
     (case split_on CHR ''.'' token of
        p0 # base64Url # ps \<Rightarrow>
          (let base64 = map (\<lambda>c. if c = CHR ''_'' then CHR ''/'' else c)
                          (map (\<lambda>c. if c = CHR ''-'' then CHR ''+'' else c) base64Url)
           in case atob rt base64 of
                None \<Rightarrow> None
              | Some bin \<Rightarrow>
                  (case decodeURIComponent rt (concat (map percent bin)) of
                     None \<Rightarrow> None
                   | Some jsonPayload \<Rightarrow> JSON_parse rt jsonPayload))
      | _ \<Rightarrow> None)"

subsection \<open>\<^verbatim>\<open>performRenewal\<close>\<close>

text \<open>
  The renewal API is a collaborator. A call of \<^verbatim>\<open>fetch\<close> rejects (\<open>None\<close>) or gives a
  response; \<open>json_body\<close> is what \<^verbatim>\<open>res.json()\<close> resolves to (\<open>None\<close> when it rejects)
  and \<open>set_cookie\<close> is \<^verbatim>\<open>res.headers.get('set-cookie')\<close>.
\<close>

record http_response =
  ok :: bool
  code :: nat
  json_body :: "json option"
  set_cookie :: "string option"

datatype api_request = TokenRequest string int | LoginRequest json

type_synonym api = "api_request \<Rightarrow> http_response option"

text \<open>What the \<^verbatim>\<open>catch\<close> of \<^verbatim>\<open>performRenewal\<close> reports.\<close>

datatype renew_error =
    TokenRequestFailed nat
  | InvalidTokenResponse
  | LoginFailed nat
  | NoSetCookie
  | Rejected
  | WriteFailed

text \<open>
  \<^verbatim>\<open>envContent.replace(/COOKIE=.*/, replacement)\<close>: the first occurrence of
  \<^verbatim>\<open>COOKIE=\<close> up to the end of its line is replaced; in the replacement \<^verbatim>\<open>$$\<close>,
  \<^verbatim>\<open>$&\<close>, \<^verbatim>\<open>$`\<close> and \<^verbatim>\<open>$'\<close> are expanded as \<^verbatim>\<open>String.prototype.replace\<close> does.
\<close>

fun find_first :: "string \<Rightarrow> string \<Rightarrow> (string \<times> string) option" where
  "find_first w [] = (if w = [] then Some ([], []) else None)"
| "find_first w (x # xs) =
     (if prefix w (x # xs) then Some ([], x # xs)
      else map_option (\<lambda>(b, a). (x # b, a)) (find_first w xs))"

fun expand :: "string \<Rightarrow> string \<Rightarrow> string \<Rightarrow> string \<Rightarrow> string" where
  "expand left_part matched right_part [] = []"
| "expand left_part matched right_part [c] = [c]"
| "expand left_part matched right_part (c # d # r) =
     (if c \<noteq> CHR ''$'' then c # expand left_part matched right_part (d # r)
      else if d = CHR ''$'' then CHR ''$'' # expand left_part matched right_part r
      else if d = CHR ''&'' then matched @ expand left_part matched right_part r
      else if d = CHR 0x60 then left_part @ expand left_part matched right_part r
      else if d = CHR 0x27 then right_part @ expand left_part matched right_part r
      else c # expand left_part matched right_part (d # r))"

definition replace_cookie_line :: "string \<Rightarrow> string \<Rightarrow> string" where
  "replace_cookie_line envContent replacement =
     (case find_first ''COOKIE='' envContent of
        None \<Rightarrow> envContent
      | Some (left_part, from) \<Rightarrow>
          (let matched = ''COOKIE='' @ while_cls Dot (drop 7 from);
               right_part = drop (length matched) from
           in left_part @ expand left_part matched right_part replacement @ right_part))"

text \<open>
  The function is one \<^verbatim>\<open>try\<close> block; its three numbered parts are three functions here.
  The first reads the token out of the answer of the token request (a TypeError when
  the answer is \<^verbatim>\<open>null\<close>), the second is the login call, the third the update of the
  state: the variable first, the file second, so that a write that fails leaves the new
  cookie in the variable.
\<close>

definition access_token_of :: "json \<Rightarrow> renew_error + json" where
  "access_token_of tokenData =
     (case get_prop tokenData ''success'' of
        Throws \<Rightarrow> Inl Rejected
      | Ok success \<Rightarrow>
          if \<not> truthy_opt success then Inl InvalidTokenResponse
          else (case get_prop tokenData ''token'' of
                  Throws \<Rightarrow> Inl Rejected
                | Ok None \<Rightarrow> Inl InvalidTokenResponse
                | Ok (Some t) \<Rightarrow> if truthy t then Inr t else Inl InvalidTokenResponse))"

definition update_state :: "bool \<Rightarrow> string \<Rightarrow> store \<Rightarrow> store \<times> renew_error option" where
  "update_state write_ok newSessionPart st =
     (let st1 = st\<lparr>CONFIG_COOKIE := newSessionPart\<rparr>
      in case env_file st1 of
           None \<Rightarrow> (st1, None)
         | Some envContent \<Rightarrow>
             (let content =
                    (if str_includes envContent ''COOKIE=''
                     then replace_cookie_line envContent (''COOKIE='' @ newSessionPart)
                     else envContent @ [CHR 0x0A] @ ''COOKIE='' @ newSessionPart)
              in if write_ok then (st1\<lparr>env_file := Some content\<rparr>, None)
                 else (st1, Some WriteFailed)))"

definition login_with ::
  "api \<Rightarrow> bool \<Rightarrow> json \<Rightarrow> store \<Rightarrow> store \<times> api_request list \<times> renew_error option"
where
  "login_with api write_ok accessToken st =
     (case api (LoginRequest accessToken) of
        None \<Rightarrow> (st, [LoginRequest accessToken], Some Rejected)
      | Some loginRes \<Rightarrow>
          if \<not> ok loginRes
          then (st, [LoginRequest accessToken], Some (LoginFailed (code loginRes)))
          else (case set_cookie loginRes of
                  None \<Rightarrow> (st, [LoginRequest accessToken], Some NoSetCookie)
                | Some setCookieHeader \<Rightarrow>
                    if setCookieHeader = []
                    then (st, [LoginRequest accessToken], Some NoSetCookie)
                    else (let newSessionPart = takeWhile (\<lambda>c. c \<noteq> CHR '';'') setCookieHeader;
                              (st', e) = update_state write_ok newSessionPart st
                          in (st', [LoginRequest accessToken], e))))"

definition performRenewal ::
  "api \<Rightarrow> bool \<Rightarrow> int \<Rightarrow> store \<Rightarrow> store \<times> api_request list \<times> renew_error option"
where
  "performRenewal api write_ok now st =
     (let req1 = TokenRequest (CONFIG_COOKIE st) now
      in case api req1 of
           None \<Rightarrow> (st, [req1], Some Rejected)
         | Some tokenRes \<Rightarrow>
             if \<not> ok tokenRes then (st, [req1], Some (TokenRequestFailed (code tokenRes)))
             else (case json_body tokenRes of
                     None \<Rightarrow> (st, [req1], Some Rejected)
                   | Some tokenData \<Rightarrow>
                       (case access_token_of tokenData of
                          Inl e \<Rightarrow> (st, [req1], Some e)
                        | Inr accessToken \<Rightarrow>
                            (let (st', calls, e) = login_with api write_ok accessToken st
                             in (st', req1 # calls, e)))))"

subsection \<open>\<^verbatim>\<open>renewCookieIfNeeded\<close>\<close>

text \<open>\<^verbatim>\<open>/session=([^;]+)/\<close>\<close>

definition sessionRe :: rx where
  "sessionRe = Seq (Lit ''session='') (Grp 1 (Plus (Not CHR '';'')))"

text \<open>
  \<^verbatim>\<open>payload.exp - now\<close>: a number is taken as it is, \<^verbatim>\<open>true\<close> counts 1, and any other
  value goes through the conversion of the runtime, which gives a number or none
  (\<open>None\<close>: the result is \<^verbatim>\<open>NaN\<close>, with which every comparison is false, or the
  conversion throws; the check ends without a renewal either way).
\<close>

definition to_number :: "runtime \<Rightarrow> json \<Rightarrow> int option" where
  "to_number rt v =
     (case v of
        JNum n \<Rightarrow> Some n
      | JBool b \<Rightarrow> Some (if b then 1 else 0)
      | JNull \<Rightarrow> Some 0
      | _ \<Rightarrow> ToNumber rt v)"

definition sessionToken :: "string \<Rightarrow> string" where
  "sessionToken cookie =
     (case search sessionRe cookie of Some k \<Rightarrow> grp k 1 | None \<Rightarrow> cookie)"

definition renewCookieIfNeeded ::
  "runtime \<Rightarrow> api \<Rightarrow> bool \<Rightarrow> int \<Rightarrow> store \<Rightarrow> store \<times> api_request list \<times> renew_error option"
where
  "renewCookieIfNeeded rt api write_ok now_ms st =
     (case parseJwt rt (sessionToken (CONFIG_COOKIE st)) of
           None \<Rightarrow> (st, [], None)
         | Some payload \<Rightarrow>
             if \<not> truthy payload then (st, [], None)
             else (case get_prop payload ''exp'' of
                     Ok (Some exp_claim) \<Rightarrow>
                       if \<not> truthy exp_claim then (st, [], None)
                       else (case to_number rt exp_claim of
                               None \<Rightarrow> (st, [], None)
                             | Some e \<Rightarrow>
                                 (let now = now_ms div 1000;
                                      timeLeft = e - now;
                                      daysLeft = (of_int timeLeft :: rat) / (60 * 60 * 24)
                                  in if daysLeft < 10 then performRenewal api write_ok now_ms st
                                     else (st, [], None)))
                   | _ \<Rightarrow> (st, [], None)))"

subsection \<open>Notions used to state the properties of the renewal\<close>

text \<open>
  A runtime for the examples: it decodes three tokens, whose payloads expire 9 days
  after the second 1700000000, 11 days after it, and at second 0.
\<close>

definition rt_jwt :: runtime where
  "rt_jwt =
     \<lparr>JSON_parse = (\<lambda>s. if s = ''nine'' then Some (JObj [(''exp'', JNum 1700777600)])
                         else if s = ''eleven'' then Some (JObj [(''exp'', JNum 1700950400)])
                         else if s = ''zero'' then Some (JObj [(''exp'', JNum 0)])
                         else None),
      atob = (\<lambda>s. if s = ''p9'' then Some ''nine''
                   else if s = ''p11'' then Some ''eleven''
                   else if s = ''p0'' then Some ''zero'' else None),
      decodeURIComponent = (\<lambda>s. if s = ''%6e%69%6e%65'' then Some ''nine''
                   else if s = ''%65%6c%65%76%65%6e'' then Some ''eleven''
                   else if s = ''%7a%65%72%6f'' then Some ''zero'' else None),
      ToNumber = (\<lambda>v. None)\<rparr>"

definition st_of :: "string \<Rightarrow> store" where
  "st_of cookie = \<lparr>CONFIG_COOKIE = cookie, env_file = Some (''COOKIE='' @ cookie)\<rparr>"

definition resp :: "bool \<Rightarrow> nat \<Rightarrow> json option \<Rightarrow> string option \<Rightarrow> http_response" where
  "resp b c j h = \<lparr>ok = b, code = c, json_body = j, set_cookie = h\<rparr>"

definition token_ok :: json where
  "token_ok = JObj [(''success'', JBool True), (''token'', JStr ''at'')]"

definition api_down :: api where
  "api_down r = None"

definition api_403 :: api where
  "api_403 r = Some (resp False 403 None None)"

definition api_no_token :: api where
  "api_no_token r = Some (resp True 200 (Some (JObj [(''success'', JBool False)])) None)"

definition api_login_401 :: api where
  "api_login_401 r =
     (case r of
        TokenRequest c t \<Rightarrow> Some (resp True 200 (Some token_ok) None)
      | LoginRequest a \<Rightarrow> Some (resp False 401 None None))"

definition api_no_cookie :: api where
  "api_no_cookie r =
     (case r of
        TokenRequest c t \<Rightarrow> Some (resp True 200 (Some token_ok) None)
      | LoginRequest a \<Rightarrow> Some (resp True 200 None None))"

definition api_good :: api where
  "api_good r =
     (case r of
        TokenRequest c t \<Rightarrow> Some (resp True 200 (Some token_ok) None)
      | LoginRequest a \<Rightarrow> Some (resp True 200 None (Some ''session=h.p11.s; Max-Age=1'')))"

section \<open>Properties of the outbound bridge\<close>

lemma floor_half_up: "\<lfloor>(of_int d :: rat) / 1000 + 1 / 2\<rfloor> = (d + 500) div 1000"
proof -
  have "(of_int d :: rat) / 1000 + 1 / 2 = of_int (d + 500) / of_int 1000"
    by (simp add: field_simps)
  then show ?thesis
    by (simp only: floor_divide_of_int_eq)
qed

lemma latency_gt_5: "((of_int d :: rat) / 1000 > 5) = (d > 5000)"
proof -
  have "((of_int d :: rat) / 1000 > 5) = ((of_int d :: rat) > of_int 5000)"
    by (simp add: field_simps)
  then show ?thesis
    by (simp only: of_int_less_iff)
qed

lemma finalText_ms:
  "finalText now m =
     (if now - msg_time m > 5000
      then msg_text m @ '' (delayed '' @ digits10 (nat ((now - msg_time m + 500) div 1000)) @ ''s)''
      else msg_text m)"
proof -
  have pos: "\<not> (of_int (now - msg_time m) :: rat) / 1000 < 0" if "now - msg_time m > 5000"
    using that by (simp add: field_simps)
  show ?thesis
    unfolding finalText_def Let_def toFixed0_def latency_gt_5 floor_half_up
    using pos by simp
qed

lemma flush_loop_Cons:
  "msgQueue s = m # q \<Longrightarrow>
   flush_loop tr now i s =
     (if tr (sent s) (finalText now m)
      then flush_loop tr now i (s\<lparr>msgQueue := q, sent := sent s @ [(i, finalText now m)]\<rparr>)
      else Threw (s\<lparr>msgQueue := q\<rparr>))"
  by (simp add: flush_loop.simps[of tr now i s] Let_def)

lemma flush_loop_Nil: "msgQueue s = [] \<Longrightarrow> flush_loop tr now i s = Returned s"
  by (simp add: flush_loop.simps[of tr now i s])

lemma flush_loop_Returned:
  "flush_loop tr now i s = Returned s' \<Longrightarrow>
     s' = s\<lparr>msgQueue := [], sent := sent s @ map (\<lambda>m. (i, finalText now m)) (msgQueue s)\<rparr>"
proof (induction "msgQueue s" arbitrary: s)
  case Nil
  then show ?case by (simp add: flush_loop_Nil)
next
  case (Cons m q)
  let ?s2 = "s\<lparr>msgQueue := q, sent := sent s @ [(i, finalText now m)]\<rparr>"
  from Cons.hyps(2) Cons.prems have "flush_loop tr now i ?s2 = Returned s'"
    by (simp add: flush_loop_Cons[OF sym] split: if_splits)
  from Cons.hyps(1)[of ?s2, OF _ this] Cons.hyps(2)[symmetric] show ?case by simp
qed

lemma flush_loop_Threw:
  "flush_loop tr now i s = Threw s' \<Longrightarrow>
     \<exists>k < length (msgQueue s).
       s' = s\<lparr>msgQueue := drop (Suc k) (msgQueue s),
              sent := sent s @ map (\<lambda>m. (i, finalText now m)) (take k (msgQueue s))\<rparr> \<and>
       \<not> tr (sent s') (finalText now (msgQueue s ! k))"
proof (induction "msgQueue s" arbitrary: s)
  case Nil
  then show ?case by (simp add: flush_loop_Nil)
next
  case (Cons m q)
  note q = Cons.hyps(2)[symmetric]
  show ?case
  proof (cases "tr (sent s) (finalText now m)")
    case False
    with Cons.prems q have "s' = s\<lparr>msgQueue := q\<rparr>"
      by (simp add: flush_loop_Cons)
    with False q show ?thesis by (intro exI[of _ 0]) simp
  next
    case True
    let ?s2 = "s\<lparr>msgQueue := q, sent := sent s @ [(i, finalText now m)]\<rparr>"
    from True Cons.prems q have "flush_loop tr now i ?s2 = Threw s'"
      by (simp add: flush_loop_Cons)
    from Cons.hyps(1)[of ?s2, OF _ this]
    obtain k where k: "k < length q"
      "s' = ?s2\<lparr>msgQueue := drop (Suc k) q,
            sent := sent ?s2 @ map (\<lambda>m. (i, finalText now m)) (take k q)\<rparr>"
      "\<not> tr (sent s') (finalText now (q ! k))"
      by auto
    with q show ?thesis by (intro exI[of _ "Suc k"]) simp
  qed
qed

lemma flush_all_accepted:
  "\<forall>h f. tr h f \<Longrightarrow> \<exists>s'. flush_loop tr now i s = Returned s'"
proof (induction "msgQueue s" arbitrary: s)
  case Nil
  then show ?case by (simp add: flush_loop_Nil)
next
  case (Cons m q)
  let ?s2 = "s\<lparr>msgQueue := q, sent := sent s @ [(i, finalText now m)]\<rparr>"
  from Cons.hyps(1)[of ?s2] Cons.prems obtain s' where "flush_loop tr now i ?s2 = Returned s'"
    by auto
  with Cons.prems Cons.hyps(2)[symmetric] show ?case
    by (simp add: flush_loop_Cons)
qed

lemma rendering_finalText: "rendering_of (msg_text m) (finalText now m)"
  unfolding rendering_of_def
  by (rule exI[of _ now], rule exI[of _ "msg_time m"]) (simp add: finalText_def)

lemma renderings_queue:
  "list_all2 rendering_of (map msg_text q) (map (finalText now) q)"
  by (induction q) (simp_all add: rendering_finalText)

lemma resetIdleTimer_frame [simp]:
  "msgQueue (resetIdleTimer now s) = msgQueue s"
  "sent (resetIdleTimer now s) = sent s"
  "sockets (resetIdleTimer now s) = sockets s"
  "ws (resetIdleTimer now s) = ws s"
  by (simp_all add: resetIdleTimer_def setTimeout_def clearTimeout_def Let_def split: option.splits)

lemma connect_frame [simp]:
  "msgQueue (connect s) = msgQueue s"
  "sent (connect s) = sent s"
  "timers (connect s) = timers s"
  "next_timer (connect s) = next_timer s"
  "idleTimer (connect s) = idleTimer s"
  by (simp_all add: connect_def)

lemma ws_close_frame [simp]:
  "msgQueue (ws_close s) = msgQueue s"
  "sent (ws_close s) = sent s"
  "timers (ws_close s) = timers s"
  "next_timer (ws_close s) = next_timer s"
  "idleTimer (ws_close s) = idleTimer s"
  "ws (ws_close s) = ws s"
  by (simp_all add: ws_close_def split: option.splits)

lemma set_readyState_frame [simp]:
  "msgQueue (set_readyState i r s) = msgQueue s"
  "sent (set_readyState i r s) = sent s"
  "timers (set_readyState i r s) = timers s"
  "next_timer (set_readyState i r s) = next_timer s"
  "idleTimer (set_readyState i r s) = idleTimer s"
  "ws (set_readyState i r s) = ws s"
  by (simp_all add: set_readyState_def)

lemma clearTimeout_frame [simp]:
  "msgQueue (clearTimeout t s) = msgQueue s"
  "sent (clearTimeout t s) = sent s"
  "next_timer (clearTimeout t s) = next_timer s"
  "idleTimer (clearTimeout t s) = idleTimer s"
  "ws (clearTimeout t s) = ws s"
  "sockets (clearTimeout t s) = sockets s"
  by (simp_all add: clearTimeout_def)

lemma run_cb_frame [simp]:
  "msgQueue (run_cb cb s) = msgQueue s"
  "sent (run_cb cb s) = sent s"
  "timers (run_cb cb s) = timers s"
  "next_timer (run_cb cb s) = next_timer s"
  "idleTimer (run_cb cb s) = idleTimer s"
  by (simp_all add: run_cb_def split: timer_cb.splits)

lemma on_close_frame [simp]:
  "msgQueue (on_close now i s) = msgQueue s"
  "sent (on_close now i s) = sent s"
  "idleTimer (on_close now i s) = idleTimer s"
  by (simp_all add: on_close_def setTimeout_def)

lemma on_error_frame [simp]:
  "msgQueue (on_error i s) = msgQueue s"
  "sent (on_error i s) = sent s"
  "timers (on_error i s) = timers s"
  "next_timer (on_error i s) = next_timer s"
  "idleTimer (on_error i s) = idleTimer s"
  by (simp_all add: on_error_def)

lemma fire_frame:
  "fire now t s = Some s' \<Longrightarrow> msgQueue s' = msgQueue s \<and> sent s' = sent s"
  by (auto simp: fire_def split: option.splits if_splits)

text \<open>What a flush that returns has done.\<close>

lemma flushMsgQueue_Returned:
  assumes "flushMsgQueue tr now s = Returned s'"
  shows "(ws_readyState s \<noteq> Some OPEN \<and> s' = s) \<or>
         (\<exists>i. ws s = Some i \<and> ws_readyState s = Some OPEN \<and>
              s' = resetIdleTimer now
                     (s\<lparr>msgQueue := [],
                        sent := sent s @ map (\<lambda>m. (i, finalText now m)) (msgQueue s)\<rparr>))"
proof (cases "ws s")
  case None
  with assms show ?thesis by (simp add: flushMsgQueue_def ws_readyState_def)
next
  case (Some i)
  show ?thesis
  proof (cases "ws_readyState s = Some OPEN")
    case False
    with assms Some show ?thesis by (simp add: flushMsgQueue_def)
  next
    case True
    with assms Some obtain s1 where s1: "flush_loop tr now i s = Returned s1"
      and s': "s' = resetIdleTimer now s1"
      by (auto simp: flushMsgQueue_def split: outcome.splits)
    from flush_loop_Returned[OF s1] s' Some True show ?thesis by simp
  qed
qed

lemma flushMsgQueue_fifo:
  assumes "flushMsgQueue tr now s = Returned s'" and "fifo E s"
  shows "fifo E s'"
proof -
  from assms(2) obtain ts where ts: "E = ts @ map msg_text (msgQueue s)"
    "list_all2 rendering_of ts (map snd (sent s))"
    by (auto simp: fifo_def)
  from flushMsgQueue_Returned[OF assms(1)] show ?thesis
  proof
    assume "ws_readyState s \<noteq> Some OPEN \<and> s' = s"
    with assms(2) show ?thesis by simp
  next
    assume "\<exists>i. ws s = Some i \<and> ws_readyState s = Some OPEN \<and>
              s' = resetIdleTimer now
                     (s\<lparr>msgQueue := [],
                        sent := sent s @ map (\<lambda>m. (i, finalText now m)) (msgQueue s)\<rparr>)"
    then obtain i where "s' = resetIdleTimer now
                     (s\<lparr>msgQueue := [],
                        sent := sent s @ map (\<lambda>m. (i, finalText now m)) (msgQueue s)\<rparr>)"
      by blast
    then have s': "msgQueue s' = []"
      "sent s' = sent s @ map (\<lambda>m. (i, finalText now m)) (msgQueue s)"
      by simp_all
    have "list_all2 rendering_of (ts @ map msg_text (msgQueue s))
            (map snd (sent s) @ map (finalText now) (msgQueue s))"
      using ts(2) renderings_queue by (rule list_all2_appendI)
    with ts(1) s' show ?thesis
      unfolding fifo_def by (intro exI[of _ E]) (simp add: comp_def)
  qed
qed

lemma fifo_cong:
  "fifo E s \<Longrightarrow> msgQueue s' = msgQueue s \<Longrightarrow> sent s' = sent s \<Longrightarrow> fifo E s'"
  by (simp add: fifo_def)

lemma fifo_push:
  "fifo E s \<Longrightarrow> fifo (E @ [txt]) (s\<lparr>msgQueue := msgQueue s @ [\<lparr>msg_text = txt, msg_time = now\<rparr>]\<rparr>)"
  by (auto simp: fifo_def)

lemma step_fifo:
  assumes "step tr e s = Returned s'" and "fifo E s"
  shows "fifo (E @ enqueued [e]) s'"
proof (cases e)
  case (Pair now ev)
  show ?thesis
  proof (cases ev)
    case (Enqueue x)
    let ?s1 = "s\<lparr>msgQueue := msgQueue s @ [\<lparr>msg_text = x, msg_time = now\<rparr>]\<rparr>"
    have f1: "fifo (E @ [x]) ?s1" using assms(2) by (rule fifo_push)
    show ?thesis
    proof (cases "ws_readyState ?s1 = Some OPEN")
      case True
      with assms(1) Pair Enqueue have "flushMsgQueue tr now ?s1 = Returned s'"
        by (simp add: step_def sendToChatroom_def Let_def)
      from flushMsgQueue_fifo[OF this f1] Pair Enqueue show ?thesis by simp
    next
      case False
      with assms(1) Pair Enqueue have "s' = connect ?s1"
        by (simp add: step_def sendToChatroom_def Let_def)
      with fifo_cong[OF f1, of s'] Pair Enqueue show ?thesis by simp
    qed
  next
    case (WsOpen i)
    show ?thesis
    proof (cases "i < length (sockets s) \<and> readyState (sockets s ! i) = CONNECTING")
      case True
      with assms(1) Pair WsOpen have "flushMsgQueue tr now (set_readyState i OPEN s) = Returned s'"
        by (simp add: step_def on_open_def)
      from flushMsgQueue_fifo[OF this fifo_cong[OF assms(2)]] Pair WsOpen show ?thesis by simp
    next
      case False
      with assms Pair WsOpen show ?thesis by (simp add: step_def on_open_def)
    qed
  next
    case (WsClose i)
    with assms Pair show ?thesis by (auto simp: step_def intro: fifo_cong)
  next
    case (WsError i)
    with assms Pair show ?thesis by (auto simp: step_def intro: fifo_cong)
  next
    case (Timer t)
    with assms Pair show ?thesis
      by (auto simp: step_def split: option.splits dest!: fire_frame intro: fifo_cong)
  qed
qed

lemma enqueued_append: "enqueued (es @ fs) = enqueued es @ enqueued fs"
  by (induction es rule: enqueued.induct) simp_all

lemma run_fifo:
  "run tr es s = Returned s' \<Longrightarrow> fifo E s \<Longrightarrow> fifo (E @ enqueued es) s'"
proof (induction es arbitrary: s E)
  case Nil
  then show ?case by simp
next
  case (Cons e es)
  from Cons.prems(1) obtain s1 where s1: "step tr e s = Returned s1" "run tr es s1 = Returned s'"
    by (auto split: outcome.splits)
  from step_fifo[OF s1(1) Cons.prems(2)] have "fifo (E @ enqueued [e]) s1" .
  from Cons.IH[OF s1(2) this] show ?case
    using enqueued_append[of "[e]" es] by simp
qed

lemma fifo_start: "fifo [] (start c)"
  by (simp add: fifo_def start_def)

lemma timers_ok_cong:
  "timers_ok s \<Longrightarrow> timers s' = timers s \<Longrightarrow> next_timer s' = next_timer s \<Longrightarrow>
   idleTimer s' = idleTimer s \<Longrightarrow> timers_ok s'"
  by (simp add: timers_ok_def)

lemma timers_ok_clearTimeout: "timers_ok s \<Longrightarrow> timers_ok (clearTimeout t s)"
  by (auto simp: timers_ok_def clearTimeout_def distinct_map_filter)

lemma timers_ok_setTimeout_Reconnect:
  "timers_ok s \<Longrightarrow> timers_ok (snd (setTimeout ReconnectCb d now s))"
  by (fastforce simp: timers_ok_def setTimeout_def)

lemma resetIdleTimer_timers:
  "timers (resetIdleTimer now s) =
     filter (\<lambda>(i, due, cb). Some i \<noteq> idleTimer s) (timers s) @
     [(next_timer s, now + 600000, IdleCb)]"
  "next_timer (resetIdleTimer now s) = Suc (next_timer s)"
  "idleTimer (resetIdleTimer now s) = Some (next_timer s)"
  by (cases "idleTimer s";
      simp add: resetIdleTimer_def setTimeout_def clearTimeout_def Let_def case_prod_unfold)+

lemma timers_ok_resetIdleTimer:
  assumes "timers_ok s"
  shows "timers_ok (resetIdleTimer now s)"
proof -
  from assms have below: "\<forall>x \<in> set (timers s). fst x < next_timer s"
    by (auto simp: timers_ok_def)
  then have fresh: "next_timer s \<notin> fst ` set (timers s)" by auto
  from assms have idle: "\<forall>x \<in> set (timers s). snd (snd x) = IdleCb \<longrightarrow> idleTimer s = Some (fst x)"
    by (auto simp: timers_ok_def)
  from assms have "distinct (map fst (timers s))" by (simp add: timers_ok_def)
  then have "distinct (map fst (filter (\<lambda>(i, due, cb). Some i \<noteq> idleTimer s) (timers s)))"
    by (rule distinct_map_filter)
  with fresh below idle show ?thesis
    unfolding timers_ok_def resetIdleTimer_timers
    by (auto simp: less_Suc_eq)
qed

lemma pending_idle_resetIdleTimer:
  "timers_ok s \<Longrightarrow>
   pending_idle (resetIdleTimer now s) = [(next_timer s, now + 600000, IdleCb)]"
  by (cases "idleTimer s")
     (auto simp: timers_ok_def pending_idle_def resetIdleTimer_def setTimeout_def
        clearTimeout_def Let_def filter_empty_conv)

lemma pending_idle_le_1:
  assumes "timers_ok s"
  shows "length (pending_idle s) \<le> 1"
proof -
  have d: "distinct (map fst (pending_idle s))"
    using assms by (simp add: timers_ok_def pending_idle_def distinct_map_filter)
  have "set (map fst (pending_idle s)) \<subseteq> set_option (idleTimer s)"
    using assms by (auto simp: timers_ok_def pending_idle_def)
  then have "card (set (map fst (pending_idle s))) \<le> card (set_option (idleTimer s))"
    by (intro card_mono) (cases "idleTimer s", simp_all)
  also have "\<dots> \<le> 1" by (cases "idleTimer s") simp_all
  finally show ?thesis using distinct_card[OF d] by simp
qed

lemma timers_ok_flushMsgQueue:
  assumes "timers_ok s"
  shows "timers_ok (state_of (flushMsgQueue tr now s))"
proof (cases "flushMsgQueue tr now s")
  case (Returned s')
  from flushMsgQueue_Returned[OF this] assms Returned show ?thesis
    by (auto simp: state_of_def intro!: timers_ok_resetIdleTimer elim: timers_ok_cong)
next
  case (Threw s')
  then obtain i where "flush_loop tr now i s = Threw s'"
    by (auto simp: flushMsgQueue_def split: option.splits if_splits outcome.splits)
  from flush_loop_Threw[OF this] assms Threw show ?thesis
    by (auto simp: state_of_def elim: timers_ok_cong)
qed

lemma timers_ok_fire:
  assumes "timers_ok s" and "fire now t s = Some s'"
  shows "timers_ok s'"
proof -
  from assms(2) obtain cb where "s' = run_cb cb (clearTimeout t s)"
    by (auto simp: fire_def split: option.splits if_splits)
  with timers_ok_cong[OF timers_ok_clearTimeout[OF assms(1), of t], of s'] show ?thesis
    by simp
qed

lemma timers_ok_on_close: "timers_ok s \<Longrightarrow> timers_ok (on_close now i s)"
  unfolding on_close_def
  by (auto intro!: timers_ok_setTimeout_Reconnect elim: timers_ok_cong)

lemma timers_ok_step:
  assumes "timers_ok s"
  shows "timers_ok (state_of (step tr e s))"
proof (cases e)
  case (Pair now ev)
  show ?thesis
  proof (cases ev)
    case (Enqueue x)
    let ?s1 = "s\<lparr>msgQueue := msgQueue s @ [\<lparr>msg_text = x, msg_time = now\<rparr>]\<rparr>"
    have ok1: "timers_ok ?s1" using assms by (simp add: timers_ok_def)
    show ?thesis
    proof (cases "ws_readyState ?s1 = Some OPEN")
      case True
      with timers_ok_flushMsgQueue[OF ok1] Pair Enqueue show ?thesis
        by (simp add: step_def sendToChatroom_def Let_def)
    next
      case False
      with timers_ok_cong[OF ok1, of "connect ?s1"] Pair Enqueue show ?thesis
        by (simp add: step_def sendToChatroom_def Let_def state_of_def)
    qed
  next
    case (WsOpen i)
    have "timers_ok (set_readyState i OPEN s)"
      using assms by (rule timers_ok_cong) simp_all
    from timers_ok_flushMsgQueue[OF this] assms Pair WsOpen show ?thesis
      by (simp add: step_def on_open_def state_of_def)
  next
    case (WsClose i)
    with timers_ok_on_close[OF assms] Pair show ?thesis
      by (simp add: step_def state_of_def)
  next
    case (WsError i)
    with timers_ok_cong[OF assms, of "on_error i s"] Pair show ?thesis
      by (simp add: step_def state_of_def)
  next
    case (Timer t)
    with assms Pair show ?thesis
      by (auto simp: step_def state_of_def split: option.splits dest: timers_ok_fire)
  qed
qed

lemma timers_ok_run: "timers_ok s \<Longrightarrow> timers_ok (state_of (run tr es s))"
proof (induction es arbitrary: s)
  case Nil
  then show ?case by (simp add: state_of_def)
next
  case (Cons e es)
  from timers_ok_step[OF Cons.prems, of tr e] Cons.IH show ?case
    by (cases "step tr e s") (simp_all add: state_of_def)
qed

lemma timers_ok_start: "timers_ok (start c)"
  by (simp add: timers_ok_def start_def)

lemmas bridge_eval =
  step_def sendToChatroom_def flushMsgQueue_def flush_loop.simps connect_def
  ws_readyState_def set_readyState_def on_open_def on_close_def on_error_def setTimeout_def
  resetIdleTimer_def clearTimeout_def fire_def run_cb_def ws_close_def close_socket_def
  start_def state_of_def pending_idle_def Let_def finalText_ms digits10.simps

text \<open>
  C6. Every frame that a flush hands to the socket is the text of the message it popped,
  followed by the suffix \<^verbatim>\<open> (delayed Ns)\<close> exactly when more than 5000 ms lie between
  the enqueue and the flush; N is that time in seconds rounded to the nearest whole
  number (a half rounds up). This holds for the frames of a flush that returns and for
  those a flush accepted before a send threw.
\<close>

theorem C6_delay_annotation:
  assumes "ws s = Some i" and "ws_readyState s = Some OPEN"
  shows "(flushMsgQueue tr now s = Returned s' \<longrightarrow>
            sent s' = sent s @
              map (\<lambda>m. (i, if now - msg_time m > 5000
                            then msg_text m @ '' (delayed '' @
                                 digits10 (nat ((now - msg_time m + 500) div 1000)) @ ''s)''
                            else msg_text m)) (msgQueue s)) \<and>
         (flushMsgQueue tr now s = Threw s' \<longrightarrow>
            (\<exists>k < length (msgQueue s). sent s' = sent s @
              map (\<lambda>m. (i, if now - msg_time m > 5000
                            then msg_text m @ '' (delayed '' @
                                 digits10 (nat ((now - msg_time m + 500) div 1000)) @ ''s)''
                            else msg_text m)) (take k (msgQueue s))))"
proof (intro conjI impI)
  assume "flushMsgQueue tr now s = Returned s'"
  from flushMsgQueue_Returned[OF this] assms
  show "sent s' = sent s @
              map (\<lambda>m. (i, if now - msg_time m > 5000
                            then msg_text m @ '' (delayed '' @
                                 digits10 (nat ((now - msg_time m + 500) div 1000)) @ ''s)''
                            else msg_text m)) (msgQueue s)"
    by (auto simp: finalText_ms)
next
  assume "flushMsgQueue tr now s = Threw s'"
  with assms have "flush_loop tr now i s = Threw s'"
    by (auto simp: flushMsgQueue_def split: outcome.splits)
  from flush_loop_Threw[OF this]
  show "\<exists>k < length (msgQueue s). sent s' = sent s @
              map (\<lambda>m. (i, if now - msg_time m > 5000
                            then msg_text m @ '' (delayed '' @
                                 digits10 (nat ((now - msg_time m + 500) div 1000)) @ ''s)''
                            else msg_text m)) (take k (msgQueue s))"
    by (auto simp: finalText_ms)
qed

theorem C6_delay_annotation_witness:
  "sent (state_of (flushMsgQueue accept_all 6000 s_two_queued)) =
     [(0, ''A (delayed 6s)''), (0, ''B'')]"
proof -
  have w: "ws s_two_queued = Some 0" and o: "ws_readyState s_two_queued = Some OPEN"
    by (simp_all add: s_two_queued_def ws_readyState_def)
  obtain s' where r: "flushMsgQueue accept_all 6000 s_two_queued = Returned s'"
    by (simp add: s_two_queued_def accept_all_def bridge_eval)
  from C6_delay_annotation[OF w o, of accept_all 6000 s'] r
  show ?thesis
    by (simp add: s_two_queued_def state_of_def digits10.simps)
qed

text \<open>
  C1, as stated, fails. Two messages are queued while the socket connects; the socket
  opens and the send of the first one throws. The flush ends by that exception with
  the first message neither delivered nor in the queue any more.
\<close>

theorem C1_counterexample:
  "run reject_A trace_lost (start ''c'') =
     Threw \<lparr>COOKIE = ''c'', ws = Some 0,
            sockets = [\<lparr>readyState = OPEN, cookie_header = ''c'', close_calls = 0\<rparr>],
            msgQueue = [\<lparr>msg_text = ''B'', msg_time = 0\<rparr>],
            idleTimer = None, timers = [], next_timer = 0, sent = []\<rparr>"
  by (simp add: trace_lost_def reject_A_def bridge_eval)

text \<open>
  C1, amended. A flush on an open socket takes each message out of the queue before it
  hands it to the socket. When every send returns, the whole queue has been sent in
  order and the queue is empty. When a send throws, the loop ends there: the messages
  before the failing one were accepted, the messages behind it are still queued in
  their order, and the failing message itself is already out of the queue.
\<close>

theorem C1_flush_pops_before_send:
  assumes "ws s = Some i" and "ws_readyState s = Some OPEN"
  shows "(flushMsgQueue tr now s = Returned s' \<longrightarrow>
            msgQueue s' = [] \<and>
            sent s' = sent s @ map (\<lambda>m. (i, finalText now m)) (msgQueue s)) \<and>
         (flushMsgQueue tr now s = Threw s' \<longrightarrow>
            (\<exists>k < length (msgQueue s).
               sent s' = sent s @ map (\<lambda>m. (i, finalText now m)) (take k (msgQueue s)) \<and>
               \<not> tr (sent s') (finalText now (msgQueue s ! k)) \<and>
               msgQueue s' = drop (Suc k) (msgQueue s)))"
proof (intro conjI impI)
  assume r: "flushMsgQueue tr now s = Returned s'"
  from flushMsgQueue_Returned[OF r] assms
  show "msgQueue s' = []"
    and "sent s' = sent s @ map (\<lambda>m. (i, finalText now m)) (msgQueue s)"
    by auto
next
  assume "flushMsgQueue tr now s = Threw s'"
  with assms have "flush_loop tr now i s = Threw s'"
    by (auto simp: flushMsgQueue_def split: outcome.splits)
  from flush_loop_Threw[OF this]
  show "\<exists>k < length (msgQueue s).
               sent s' = sent s @ map (\<lambda>m. (i, finalText now m)) (take k (msgQueue s)) \<and>
               \<not> tr (sent s') (finalText now (msgQueue s ! k)) \<and>
               msgQueue s' = drop (Suc k) (msgQueue s)"
    by auto
qed

theorem C1_flush_pops_before_send_witness:
  "flushMsgQueue reject_A 10 s_three_queued =
     Threw (s_three_queued\<lparr>msgQueue := [\<lparr>msg_text = ''C'', msg_time = 0\<rparr>], sent := [(0, ''B'')]\<rparr>) \<and>
   (\<exists>k < length (msgQueue s_three_queued).
      [(0 :: nat, ''B'')] = sent s_three_queued @
         map (\<lambda>m. (0, finalText 10 m)) (take k (msgQueue s_three_queued)) \<and>
      \<not> reject_A [(0, ''B'')] (finalText 10 (msgQueue s_three_queued ! k)) \<and>
      [\<lparr>msg_text = ''C'', msg_time = 0\<rparr>] = drop (Suc k) (msgQueue s_three_queued))"
proof -
  have w: "ws s_three_queued = Some 0" and o: "ws_readyState s_three_queued = Some OPEN"
    by (simp_all add: s_three_queued_def ws_readyState_def)
  have r: "flushMsgQueue reject_A 10 s_three_queued =
     Threw (s_three_queued\<lparr>msgQueue := [\<lparr>msg_text = ''C'', msg_time = 0\<rparr>], sent := [(0, ''B'')]\<rparr>)"
    by (simp add: s_three_queued_def reject_A_def bridge_eval)
  from C1_flush_pops_before_send[OF w o, of reject_A 10
      "s_three_queued\<lparr>msgQueue := [\<lparr>msg_text = ''C'', msg_time = 0\<rparr>], sent := [(0, ''B'')]\<rparr>"] r
  show ?thesis by simp
qed

lemma flushMsgQueue_accepted:
  assumes "\<forall>h f. tr h f"
  shows "\<exists>s'. flushMsgQueue tr now s = Returned s'"
proof (cases "ws s")
  case None
  then show ?thesis by (simp add: flushMsgQueue_def)
next
  case (Some i)
  from flush_all_accepted[OF assms, of now i s] obtain s1 where "flush_loop tr now i s = Returned s1" ..
  with Some show ?thesis by (simp add: flushMsgQueue_def)
qed

lemma step_accepted:
  assumes "\<forall>h f. tr h f"
  shows "\<exists>s'. step tr e s = Returned s'"
proof (cases e)
  case (Pair now ev)
  show ?thesis
  proof (cases ev)
    case (Enqueue x)
    with Pair flushMsgQueue_accepted[OF assms] show ?thesis
      by (simp add: step_def sendToChatroom_def Let_def)
  next
    case (WsOpen i)
    with Pair flushMsgQueue_accepted[OF assms] show ?thesis
      by (simp add: step_def on_open_def)
  next
    case (WsClose i)
    with Pair show ?thesis by (simp add: step_def)
  next
    case (WsError i)
    with Pair show ?thesis by (simp add: step_def)
  next
    case (Timer t)
    with Pair show ?thesis by (simp add: step_def split: option.splits)
  qed
qed

lemma run_accepted:
  assumes "\<forall>h f. tr h f"
  shows "\<exists>s'. run tr es s = Returned s'"
proof (induction es arbitrary: s)
  case Nil
  show ?case by simp
next
  case (Cons e es)
  from step_accepted[OF assms, of e s] obtain s1 where "step tr e s = Returned s1" ..
  with Cons[of s1] show ?case by simp
qed

text \<open>
  C2. In every run of the bridge that has not ended by an exception, whatever events
  came in which order (enqueues, sockets opening, closing and failing, timers), the
  texts enqueued so far are, in enqueue order, first the ones whose frames the
  transport accepted, frame by frame in that same order, and then the ones still
  queued. So the oldest queued message is always the next one sent, also across a
  close and a reconnect. With a transport that accepts every frame no run ends by an
  exception.
\<close>

theorem C2_fifo_delivery:
  "(run tr es (start c) = Returned s \<longrightarrow>
      (\<exists>ts. enqueued es = ts @ map msg_text (msgQueue s) \<and>
            list_all2 rendering_of ts (map snd (sent s)))) \<and>
   ((\<forall>h f. tr h f) \<longrightarrow> (\<exists>s'. run tr es (start c) = Returned s'))"
proof (intro conjI impI)
  assume "run tr es (start c) = Returned s"
  from run_fifo[OF this fifo_start]
  show "\<exists>ts. enqueued es = ts @ map msg_text (msgQueue s) \<and>
            list_all2 rendering_of ts (map snd (sent s))"
    by (simp add: fifo_def)
next
  assume "\<forall>h f. tr h f"
  then show "\<exists>s'. run tr es (start c) = Returned s'" by (rule run_accepted)
qed

theorem C2_fifo_delivery_witness:
  "enqueued trace_reconnect = [''A'', ''B'', ''C''] \<and>
   map snd (sent (state_of (run accept_all trace_reconnect (start ''c'')))) = [''A'', ''B'', ''C''] \<and>
   msgQueue (state_of (run accept_all trace_reconnect (start ''c''))) = [] \<and>
   (\<exists>ts. enqueued trace_reconnect =
           ts @ map msg_text (msgQueue (state_of (run accept_all trace_reconnect (start ''c'')))) \<and>
         list_all2 rendering_of ts
           (map snd (sent (state_of (run accept_all trace_reconnect (start ''c''))))))"
proof -
  have acc: "\<forall>h f. accept_all h f" by (simp add: accept_all_def)
  from C2_fifo_delivery[of accept_all trace_reconnect "''c''"] acc
  obtain s where r: "run accept_all trace_reconnect (start ''c'') = Returned s"
    by blast
  have e: "enqueued trace_reconnect = [''A'', ''B'', ''C'']"
    by (simp add: trace_reconnect_def)
  have d: "map snd (sent (state_of (run accept_all trace_reconnect (start ''c'')))) = [''A'', ''B'', ''C'']"
    "msgQueue (state_of (run accept_all trace_reconnect (start ''c''))) = []"
    by (simp_all add: trace_reconnect_def accept_all_def bridge_eval)
  from C2_fifo_delivery[of accept_all trace_reconnect "''c''" s] r e d show ?thesis
    by (simp add: state_of_def)
qed



lemma fire_pending:
  assumes "find (\<lambda>(j, d, cb). j = h) (timers s) = Some (h, due, cb)"
  shows "fire t h s = (if due \<le> t then Some (run_cb cb (clearTimeout h s)) else None)"
  using assms by (simp add: fire_def)




lemma fire_gone: "fire t' h (run_cb cb (clearTimeout h s)) = None"
proof -
  have "find (\<lambda>(j, d, cb). j = h) (filter (\<lambda>(j, d, cb). j \<noteq> h) ts) = None" for ts :: "(nat \<times> int \<times> timer_cb) list"
    by (induction ts) auto
  then show ?thesis
    by (simp add: fire_def clearTimeout_def)
qed

lemma ws_close_socket:
  assumes "ws s = Some i" and "i < length (sockets s)"
  shows "close_calls (sockets (ws_close s) ! i) = Suc (close_calls (sockets s ! i))"
    and "readyState (sockets s ! i) = OPEN \<Longrightarrow> readyState (sockets (ws_close s) ! i) = CLOSING"
  using assms by (simp_all add: ws_close_def close_socket_def)

lemma ws_readyState_msgQueue [simp]:
  "ws_readyState (s\<lparr>msgQueue := q\<rparr>) = ws_readyState s"
  by (cases "ws s") (simp_all add: ws_readyState_def)

lemma sendToChatroom_not_open:
  assumes "ws_readyState s \<noteq> Some OPEN"
  shows "sendToChatroom tr now x s =
           Returned (connect (s\<lparr>msgQueue := msgQueue s @ [\<lparr>msg_text = x, msg_time = now\<rparr>]\<rparr>))"
  using assms by (simp add: sendToChatroom_def Let_def)

lemma flush_open_idle:
  assumes "timers_ok s" and "flushMsgQueue tr now s = Returned s'" and "ws_readyState s = Some OPEN"
  shows "pending_idle s' = [(next_timer s, now + 600000, IdleCb)]"
proof -
  from flushMsgQueue_Returned[OF assms(2)] assms(3) obtain i where
    s': "s' = resetIdleTimer now
               (s\<lparr>msgQueue := [], sent := sent s @ map (\<lambda>m. (i, finalText now m)) (msgQueue s)\<rparr>)"
    by auto
  have "timers_ok (s\<lparr>msgQueue := [], sent := sent s @ map (\<lambda>m. (i, finalText now m)) (msgQueue s)\<rparr>)"
    using assms(1) by (rule timers_ok_cong) simp_all
  from pending_idle_resetIdleTimer[OF this, of now] s' show ?thesis by simp
qed

text \<open>
  C9, amended. In every state the bridge can reach at most one idle timer is pending.
  A flush on an open socket that returns, also one with an empty queue, leaves exactly
  one idle timer, due 600000 ms later; so does an enqueue while the socket is open. An
  enqueue while the socket is not open leaves the timers as they are. When the idle
  timer expires and the socket is open, \<^verbatim>\<open>ws.close()\<close> is called once and the socket
  starts closing; otherwise nothing happens; the expired timer cannot run again.
\<close>

theorem C9_idle_timer:
  assumes "timers_ok s"
  shows "length (pending_idle (state_of (run tr es (start c)))) \<le> 1 \<and>
         (ws_readyState s = Some OPEN \<and> flushMsgQueue tr now s = Returned s' \<longrightarrow>
            pending_idle s' = [(next_timer s, now + 600000, IdleCb)]) \<and>
         (ws_readyState s = Some OPEN \<and> sendToChatroom tr now x s = Returned s' \<longrightarrow>
            pending_idle s' = [(next_timer s, now + 600000, IdleCb)]) \<and>
         (ws_readyState s \<noteq> Some OPEN \<longrightarrow>
            (\<exists>s1. sendToChatroom tr now x s = Returned s1 \<and> timers s1 = timers s \<and>
                  idleTimer s1 = idleTimer s)) \<and>
         (find (\<lambda>(j, d, cb). j = h) (timers s) = Some (h, due, IdleCb) \<and> due \<le> t \<longrightarrow>
            fire t h s = Some (if ws_readyState s = Some OPEN then ws_close (clearTimeout h s)
                               else clearTimeout h s) \<and>
            (\<forall>t'. fire t' h (if ws_readyState s = Some OPEN then ws_close (clearTimeout h s)
                             else clearTimeout h s) = None)) \<and>
         (ws s = Some i \<and> i < length (sockets s) \<and> readyState (sockets s ! i) = OPEN \<longrightarrow>
            close_calls (sockets (ws_close s) ! i) = Suc (close_calls (sockets s ! i)) \<and>
            readyState (sockets (ws_close s) ! i) = CLOSING)"
proof (intro conjI impI allI)
  show "length (pending_idle (state_of (run tr es (start c)))) \<le> 1"
    by (rule pending_idle_le_1[OF timers_ok_run[OF timers_ok_start]])
next
  assume "ws_readyState s = Some OPEN \<and> flushMsgQueue tr now s = Returned s'"
  with flush_open_idle[OF assms, of tr now s']
  show "pending_idle s' = [(next_timer s, now + 600000, IdleCb)]"
    by simp
next
  assume a: "ws_readyState s = Some OPEN \<and> sendToChatroom tr now x s = Returned s'"
  let ?s1 = "s\<lparr>msgQueue := msgQueue s @ [\<lparr>msg_text = x, msg_time = now\<rparr>]\<rparr>"
  have ok: "timers_ok ?s1" using assms by (rule timers_ok_cong) simp_all
  from a have o: "ws_readyState ?s1 = Some OPEN" by simp
  from a have "ws_readyState s = Some OPEN" and "sendToChatroom tr now x s = Returned s'"
    by simp_all
  then have "flushMsgQueue tr now ?s1 = Returned s'"
    by (simp add: sendToChatroom_def Let_def)
  from flush_open_idle[OF ok this o]
  show "pending_idle s' = [(next_timer s, now + 600000, IdleCb)]" by simp
next
  assume "ws_readyState s \<noteq> Some OPEN"
  from sendToChatroom_not_open[OF this]
  show "\<exists>s1. sendToChatroom tr now x s = Returned s1 \<and> timers s1 = timers s \<and>
                  idleTimer s1 = idleTimer s"
    by simp
next
  assume f: "find (\<lambda>(j, d, cb). j = h) (timers s) = Some (h, due, IdleCb) \<and> due \<le> t"
  have c: "ws_readyState (clearTimeout h s) = ws_readyState s"
    by (cases "ws s") (simp_all add: ws_readyState_def)
  from f show "fire t h s = Some (if ws_readyState s = Some OPEN then ws_close (clearTimeout h s)
                               else clearTimeout h s)"
    by (simp add: fire_pending run_cb_def c)
  fix t'
  from fire_gone[of t' h IdleCb s]
  show "fire t' h (if ws_readyState s = Some OPEN then ws_close (clearTimeout h s)
                             else clearTimeout h s) = None"
    by (simp add: run_cb_def c)
next
  assume a: "ws s = Some i \<and> i < length (sockets s) \<and> readyState (sockets s ! i) = OPEN"
  then show "close_calls (sockets (ws_close s) ! i) = Suc (close_calls (sockets s ! i))"
    by (simp add: ws_close_socket)
  from a show "readyState (sockets (ws_close s) ! i) = CLOSING"
    by (simp add: ws_close_socket)
qed

text \<open>
  C9, as stated, fails: an enqueue while the socket is not open does not reset the idle
  timer. The timer armed at 0 is still due at 600000 after a message was enqueued at
  2000 on a closed socket.
\<close>

theorem C9_counterexample:
  "pending_idle (state_of (run accept_all (take 2 trace_enqueue_closed) (start ''c''))) =
     [(0, 600000, IdleCb)] \<and>
   pending_idle (state_of (run accept_all trace_enqueue_closed (start ''c''))) =
     [(0, 600000, IdleCb)] \<and>
   map msg_text (msgQueue (state_of (run accept_all trace_enqueue_closed (start ''c'')))) = [''A'']"
  by (simp add: trace_enqueue_closed_def accept_all_def bridge_eval)

theorem C9_idle_timer_witness:
  "length (pending_idle (state_of (run accept_all trace_reconnect (start ''c'')))) \<le> 1 \<and>
   pending_idle (state_of (flushMsgQueue accept_all 1000 s_open_idle)) = [(1, 601000, IdleCb)] \<and>
   pending_idle (state_of (sendToChatroom accept_all 2000 ''A'' s_open_idle)) = [(1, 602000, IdleCb)] \<and>
   fire 600000 0 s_open_idle = Some (ws_close (clearTimeout 0 s_open_idle)) \<and>
   fire 600001 0 (ws_close (clearTimeout 0 s_open_idle)) = None \<and>
   close_calls (sockets (ws_close s_open_idle) ! 0) = 1 \<and>
   readyState (sockets (ws_close s_open_idle) ! 0) = CLOSING"
proof -
  have ok: "timers_ok s_open_idle"
    by (simp add: s_open_idle_def timers_ok_def)
  have o: "ws_readyState s_open_idle = Some OPEN"
    and n: "next_timer s_open_idle = 1"
    and w: "ws s_open_idle = Some 0 \<and> 0 < length (sockets s_open_idle) \<and>
            readyState (sockets s_open_idle ! 0) = OPEN"
    and c: "close_calls (sockets s_open_idle ! 0) = 0"
    and f: "find (\<lambda>(j, d, cb). j = 0) (timers s_open_idle) = Some (0, 600000, IdleCb) \<and>
            (600000 :: int) \<le> 600000"
    by (simp_all add: s_open_idle_def ws_readyState_def)
  obtain s1 where r1: "flushMsgQueue accept_all 1000 s_open_idle = Returned s1"
    by (simp add: s_open_idle_def accept_all_def bridge_eval)
  obtain s2 where r2: "sendToChatroom accept_all 2000 ''A'' s_open_idle = Returned s2"
    by (simp add: s_open_idle_def accept_all_def bridge_eval)
  note a = C9_idle_timer[OF ok, where tr = accept_all and es = trace_reconnect and c = "''c''"
      and now = 1000 and s' = s1 and h = 0 and due = 600000 and t = 600000 and i = 0]
  note b = C9_idle_timer[OF ok, where tr = accept_all and now = 2000 and x = "''A''" and s' = s2]
  from a have 1: "length (pending_idle (state_of (run accept_all trace_reconnect (start ''c'')))) \<le> 1"
    by (rule conjunct1)
  from a o r1 n have 2: "pending_idle (state_of (flushMsgQueue accept_all 1000 s_open_idle)) = [(1, 601000, IdleCb)]"
    by (simp add: state_of_def)
  from b o r2 n have 3: "pending_idle (state_of (sendToChatroom accept_all 2000 ''A'' s_open_idle)) = [(1, 602000, IdleCb)]"
    by (simp add: state_of_def)
  from a o f have 4: "fire 600000 0 s_open_idle = Some (ws_close (clearTimeout 0 s_open_idle))"
    and 5: "fire 600001 0 (ws_close (clearTimeout 0 s_open_idle)) = None"
    by simp_all
  from a w c have 6: "close_calls (sockets (ws_close s_open_idle) ! 0) = 1"
    and 7: "readyState (sockets (ws_close s_open_idle) ! 0) = CLOSING"
    by simp_all
  from 1 2 3 4 5 6 7 show ?thesis by blast
qed

section \<open>Properties of the log line patterns\<close>

text \<open>
  C3. The cascade tests the expressions in the order chat, join, leave, welcome,
  advancement, death. For a line that holds the marker \<^verbatim>\<open>/INFO]\<close>, the first expression
  in that order that matches decides the branch and the text, whatever the later
  expressions would do with the line. A line that ends in
  \<^verbatim>\<open>Steve left the game in a hurry\<close> matches the leave and the death expression, which
  would print different texts; the text sent is the one of the leave rule.
\<close>

theorem C3_first_rule_wins:
  assumes "str_includes line ''/INFO]''"
    and "search (regex_of r) line = Some k"
    and "\<forall>r' \<in> set (earlier r). search (regex_of r') line = None"
  shows "logLineEvent line = Some (r, render r k)"
  using assms
  by (cases r) (simp_all add: logLineEvent_def regex_of_def render_def earlier_def rule_order_def)

theorem C3_first_rule_wins_witness:
  "search (regex_of Leave) line_left_hurry = Some [(1, ''Steve'')] \<and>
   search (regex_of Death) line_left_hurry = Some [(2, ''left the game in a hurry''), (1, ''Steve'')] \<and>
   render Death [(2, ''left the game in a hurry''), (1, ''Steve'')] = ''[INFO] Steve left the game in a hurry'' \<and>
   logLineEvent line_left_hurry = Some (Leave, ''[INFO] Steve left the game'')"
proof -
  have i: "str_includes line_left_hurry ''/INFO]''" by code_simp
  have l: "search (regex_of Leave) line_left_hurry = Some [(1, ''Steve'')]" by code_simp
  have d: "search (regex_of Death) line_left_hurry = Some [(2, ''left the game in a hurry''), (1, ''Steve'')]"
    by code_simp
  have e: "\<forall>r' \<in> set (earlier Leave). search (regex_of r') line_left_hurry = None"
    by code_simp
  have r: "render Death [(2, ''left the game in a hurry''), (1, ''Steve'')] = ''[INFO] Steve left the game in a hurry''"
    "render Leave [(1, ''Steve'')] = ''[INFO] Steve left the game''"
    by (simp_all add: render_def grp_def)
  from C3_first_rule_wins[OF i l e] l d r show ?thesis by simp
qed















text \<open>
  At a line terminator \<^verbatim>\<open>.*\<close> stops, and the text of the death branch ends there: here
  at the separator U+2028.
\<close>

lemma death_stops_at_separator:
  "\<not> all_cls Dot (''was slain'' @ [CHR 0xE2, CHR 0x80, CHR 0xA8] @ ''by Zombie'') \<and>
   logLineEvent line_separator = Some (Death, ''[INFO] Steve was slain'')"
  by code_simp



section \<open>Properties of the HTTP relay\<close>

lemmas relay_eval = httpServer_def sendRconCommand_def catch_throws_def is_set_def authorized_def
  rcon_succeeds_def cfg_demo_def parse_demo_def rt_demo_def rcon_up_def rcon_down_def
  rcon_send_fails_def rcon_nullish_def post_def body_list_def body_toString_def bearer_def
  ok_200_def error_500_def

text \<open>
  C4, as stated, fails. With the console unreachable an authorized request with a
  command is still answered 200: \<^verbatim>\<open>sendRconCommand\<close> catches the failure itself. A body
  that is not JSON, and the body \<^verbatim>\<open>null\<close>, are answered 500, not with a client error.
  Without a console password the answer is 200 and the console is not called at all.
\<close>

theorem C4_counterexample:
  "httpServer cfg_demo rt_demo rcon_down (post (Some ''Bearer s3cret'') body_list) =
     (\<lparr>status = 200, res_body = ''OK''\<rparr>, [RconConnect]) \<and>
   httpServer cfg_demo rt_demo rcon_up (post (Some ''Bearer s3cret'') ''{command'') =
     (\<lparr>status = 500, res_body = ''Internal Error''\<rparr>, []) \<and>
   httpServer cfg_demo rt_demo rcon_up (post (Some ''Bearer s3cret'') ''null'') =
     (\<lparr>status = 500, res_body = ''Internal Error''\<rparr>, []) \<and>
   httpServer (cfg_demo\<lparr>RCON_PASSWORD := None\<rparr>) rt_demo rcon_up
       (post (Some ''Bearer s3cret'') body_list) =
     (\<lparr>status = 200, res_body = ''OK''\<rparr>, [])"
  by (simp add: relay_eval)

lemma httpServer_carries:
  assumes "authorized cfg req" and "carries rt req c"
  shows "httpServer cfg rt env req =
           (if \<not> stringifies c then (error_500, [])
            else (case sendRconCommand cfg env c of
                    (calls, True) \<Rightarrow> (error_500, calls)
                  | (calls, False) \<Rightarrow> (ok_200, calls)))"
  using assms
  by (auto simp: httpServer_def authorized_def carries_def ok_200_def error_500_def)

text \<open>
  C4, amended. A POST to \<^verbatim>\<open>/\<close> with a shared secret configured and a bearer header that
  is missing or different is answered 401, and the console is not called. Any other
  method or route is answered 404. For an authorized request:
  \<^item> a body that parses to a value without a truthy command is answered 400, and a body
    that does not parse, or parses to \<^verbatim>\<open>null\<close>, is answered 500, both without a call of
    the console;
  \<^item> a truthy command that cannot be converted to a string (an object with a property
    \<^verbatim>\<open>toString\<close> of its own) is answered 500 without a call of the console;
  \<^item> any other truthy command is answered 200 \<^verbatim>\<open>OK\<close> with no call of the console when no
    console password is configured, and with one connection, the command sent once and
    the connection ended when a password is configured and the exchange succeeds;
  \<^item> when a password is configured and the connection, the send or the end is rejected,
    the console has been connected to once and sent the command at most once, and the
    answer is still 200 \<^verbatim>\<open>OK\<close> when the rejection carries an error object; it is 500
    only when the rejection carries \<^verbatim>\<open>null\<close> or \<^verbatim>\<open>undefined\<close>.
\<close>

theorem C4_relay_responses:
  "(req_method req = ''POST'' \<and> req_url req = ''/'' \<and> BRIDGE_TOKEN cfg = Some t \<and> t \<noteq> [] \<and>
      authorization req \<noteq> Some (bearer t) \<longrightarrow>
      httpServer cfg rt env req = (\<lparr>status = 401, res_body = ''Unauthorized''\<rparr>, [])) \<and>
   (\<not> (req_method req = ''POST'' \<and> req_url req = ''/'') \<longrightarrow>
      httpServer cfg rt env req = (\<lparr>status = 404, res_body = ''Not Found''\<rparr>, [])) \<and>
   (authorized cfg req \<and> JSON_parse rt (concat (chunks req)) = Some data \<and>
      get_prop data ''command'' = Ok v \<and> \<not> truthy_opt v \<longrightarrow>
      httpServer cfg rt env req = (\<lparr>status = 400, res_body = ''Missing command''\<rparr>, [])) \<and>
   (authorized cfg req \<and>
      (JSON_parse rt (concat (chunks req)) = None \<or>
       JSON_parse rt (concat (chunks req)) = Some JNull) \<longrightarrow>
      httpServer cfg rt env req = (\<lparr>status = 500, res_body = ''Internal Error''\<rparr>, [])) \<and>
   (authorized cfg req \<and> carries rt req c \<and> \<not> stringifies c \<longrightarrow>
      httpServer cfg rt env req = (\<lparr>status = 500, res_body = ''Internal Error''\<rparr>, [])) \<and>
   (authorized cfg req \<and> carries rt req c \<and> stringifies c \<and> \<not> is_set (RCON_PASSWORD cfg) \<longrightarrow>
      httpServer cfg rt env req = (\<lparr>status = 200, res_body = ''OK''\<rparr>, [])) \<and>
   (authorized cfg req \<and> carries rt req c \<and> stringifies c \<and> is_set (RCON_PASSWORD cfg) \<and>
      rcon_succeeds env c \<longrightarrow>
      httpServer cfg rt env req =
        (\<lparr>status = 200, res_body = ''OK''\<rparr>, [RconConnect, RconSend c, RconEnd])) \<and>
   (authorized cfg req \<and> carries rt req c \<and> stringifies c \<and> is_set (RCON_PASSWORD cfg) \<and>
      rc_connect env \<noteq> Resolves \<longrightarrow>
      httpServer cfg rt env req =
        (if rc_connect env = RejectsNullish then error_500 else ok_200, [RconConnect])) \<and>
   (authorized cfg req \<and> carries rt req c \<and> stringifies c \<and> is_set (RCON_PASSWORD cfg) \<and>
      rc_connect env = Resolves \<and> rc_send env c \<noteq> Resolves \<longrightarrow>
      httpServer cfg rt env req =
        (if rc_send env c = RejectsNullish then error_500 else ok_200,
         [RconConnect, RconSend c])) \<and>
   (authorized cfg req \<and> carries rt req c \<and> stringifies c \<and> is_set (RCON_PASSWORD cfg) \<and>
      rc_connect env = Resolves \<and> rc_send env c = Resolves \<and> rc_end env \<noteq> Resolves \<longrightarrow>
      httpServer cfg rt env req =
        (if rc_end env = RejectsNullish then error_500 else ok_200,
         [RconConnect, RconSend c, RconEnd]))"
proof (intro conjI impI)
  assume "req_method req = ''POST'' \<and> req_url req = ''/'' \<and> BRIDGE_TOKEN cfg = Some t \<and> t \<noteq> [] \<and>
      authorization req \<noteq> Some (bearer t)"
  then show "httpServer cfg rt env req = (\<lparr>status = 401, res_body = ''Unauthorized''\<rparr>, [])"
    by (simp add: httpServer_def is_set_def)
next
  assume "\<not> (req_method req = ''POST'' \<and> req_url req = ''/'')"
  then show "httpServer cfg rt env req = (\<lparr>status = 404, res_body = ''Not Found''\<rparr>, [])"
    by (auto simp: httpServer_def)
next
  assume "authorized cfg req \<and> JSON_parse rt (concat (chunks req)) = Some data \<and>
      get_prop data ''command'' = Ok v \<and> \<not> truthy_opt v"
  then show "httpServer cfg rt env req = (\<lparr>status = 400, res_body = ''Missing command''\<rparr>, [])"
    by (cases v) (auto simp: httpServer_def authorized_def truthy_opt_def)
next
  assume "authorized cfg req \<and>
      (JSON_parse rt (concat (chunks req)) = None \<or>
       JSON_parse rt (concat (chunks req)) = Some JNull)"
  then show "httpServer cfg rt env req = (\<lparr>status = 500, res_body = ''Internal Error''\<rparr>, [])"
    by (auto simp: httpServer_def authorized_def)
next
  assume "authorized cfg req \<and> carries rt req c \<and> \<not> stringifies c"
  then show "httpServer cfg rt env req = (\<lparr>status = 500, res_body = ''Internal Error''\<rparr>, [])"
    using httpServer_carries[of cfg req rt c env] by (simp add: error_500_def)
next
  assume "authorized cfg req \<and> carries rt req c \<and> stringifies c \<and> \<not> is_set (RCON_PASSWORD cfg)"
  then show "httpServer cfg rt env req = (\<lparr>status = 200, res_body = ''OK''\<rparr>, [])"
    using httpServer_carries[of cfg req rt c env] by (simp add: sendRconCommand_def ok_200_def)
next
  assume "authorized cfg req \<and> carries rt req c \<and> stringifies c \<and> is_set (RCON_PASSWORD cfg) \<and>
      rcon_succeeds env c"
  then show "httpServer cfg rt env req =
        (\<lparr>status = 200, res_body = ''OK''\<rparr>, [RconConnect, RconSend c, RconEnd])"
    using httpServer_carries[of cfg req rt c env] by (simp add: sendRconCommand_def rcon_succeeds_def ok_200_def)
next
  assume "authorized cfg req \<and> carries rt req c \<and> stringifies c \<and> is_set (RCON_PASSWORD cfg) \<and>
      rc_connect env \<noteq> Resolves"
  then show "httpServer cfg rt env req =
        (if rc_connect env = RejectsNullish then error_500 else ok_200, [RconConnect])"
    using httpServer_carries[of cfg req rt c env] by (simp add: sendRconCommand_def catch_throws_def)
next
  assume "authorized cfg req \<and> carries rt req c \<and> stringifies c \<and> is_set (RCON_PASSWORD cfg) \<and>
      rc_connect env = Resolves \<and> rc_send env c \<noteq> Resolves"
  then show "httpServer cfg rt env req =
        (if rc_send env c = RejectsNullish then error_500 else ok_200,
         [RconConnect, RconSend c])"
    using httpServer_carries[of cfg req rt c env] by (simp add: sendRconCommand_def catch_throws_def)
next
  assume "authorized cfg req \<and> carries rt req c \<and> stringifies c \<and> is_set (RCON_PASSWORD cfg) \<and>
      rc_connect env = Resolves \<and> rc_send env c = Resolves \<and> rc_end env \<noteq> Resolves"
  then show "httpServer cfg rt env req =
        (if rc_end env = RejectsNullish then error_500 else ok_200,
         [RconConnect, RconSend c, RconEnd])"
    using httpServer_carries[of cfg req rt c env] by (simp add: sendRconCommand_def catch_throws_def)
qed

theorem C4_relay_responses_witness:
  "httpServer cfg_demo rt_demo rcon_up (post (Some ''Bearer wrong'') body_list) =
     (\<lparr>status = 401, res_body = ''Unauthorized''\<rparr>, []) \<and>
   httpServer cfg_demo rt_demo rcon_up (post None body_list) =
     (\<lparr>status = 401, res_body = ''Unauthorized''\<rparr>, []) \<and>
   httpServer cfg_demo rt_demo rcon_up
       ((post (Some ''Bearer s3cret'') body_list)\<lparr>req_method := ''GET''\<rparr>) =
     (\<lparr>status = 404, res_body = ''Not Found''\<rparr>, []) \<and>
   httpServer cfg_demo rt_demo rcon_up (post (Some ''Bearer s3cret'') ''{}'') =
     (\<lparr>status = 400, res_body = ''Missing command''\<rparr>, []) \<and>
   httpServer cfg_demo rt_demo rcon_up (post (Some ''Bearer s3cret'') ''{command'') =
     (\<lparr>status = 500, res_body = ''Internal Error''\<rparr>, []) \<and>
   httpServer cfg_demo rt_demo rcon_up (post (Some ''Bearer s3cret'') body_toString) =
     (\<lparr>status = 500, res_body = ''Internal Error''\<rparr>, []) \<and>
   httpServer (cfg_demo\<lparr>RCON_PASSWORD := None\<rparr>) rt_demo rcon_up
       (post (Some ''Bearer s3cret'') body_list) =
     (\<lparr>status = 200, res_body = ''OK''\<rparr>, []) \<and>
   httpServer cfg_demo rt_demo rcon_up (post (Some ''Bearer s3cret'') body_list) =
     (\<lparr>status = 200, res_body = ''OK''\<rparr>, [RconConnect, RconSend (JStr ''list''), RconEnd]) \<and>
   httpServer cfg_demo rt_demo rcon_down (post (Some ''Bearer s3cret'') body_list) =
     (\<lparr>status = 200, res_body = ''OK''\<rparr>, [RconConnect]) \<and>
   httpServer cfg_demo rt_demo rcon_nullish (post (Some ''Bearer s3cret'') body_list) =
     (\<lparr>status = 500, res_body = ''Internal Error''\<rparr>, [RconConnect]) \<and>
   httpServer cfg_demo rt_demo rcon_send_fails (post (Some ''Bearer s3cret'') body_list) =
     (\<lparr>status = 200, res_body = ''OK''\<rparr>, [RconConnect, RconSend (JStr ''list'')])"
proof -
  note T = C4_relay_responses[where rt = rt_demo]
  have 1: "httpServer cfg_demo rt_demo rcon_up (post (Some ''Bearer wrong'') body_list) =
     (\<lparr>status = 401, res_body = ''Unauthorized''\<rparr>, [])"
    using T[where cfg = cfg_demo and env = rcon_up
        and req = "post (Some ''Bearer wrong'') body_list" and t = "''s3cret''"]
    by (simp add: cfg_demo_def post_def bearer_def)
  have 2: "httpServer cfg_demo rt_demo rcon_up (post None body_list) =
     (\<lparr>status = 401, res_body = ''Unauthorized''\<rparr>, [])"
    using T[where cfg = cfg_demo and env = rcon_up
        and req = "post None body_list" and t = "''s3cret''"]
    by (simp add: cfg_demo_def post_def bearer_def)
  have 3: "httpServer cfg_demo rt_demo rcon_up
       ((post (Some ''Bearer s3cret'') body_list)\<lparr>req_method := ''GET''\<rparr>) =
     (\<lparr>status = 404, res_body = ''Not Found''\<rparr>, [])"
    using T[where cfg = cfg_demo and env = rcon_up
        and req = "(post (Some ''Bearer s3cret'') body_list)\<lparr>req_method := ''GET''\<rparr>"]
    by (simp add: post_def)
  have a: "authorized cfg_demo (post (Some ''Bearer s3cret'') b)" for b
    by (simp add: authorized_def cfg_demo_def post_def is_set_def bearer_def)
  have a': "authorized (cfg_demo\<lparr>RCON_PASSWORD := None\<rparr>) (post (Some ''Bearer s3cret'') b)" for b
    by (simp add: authorized_def cfg_demo_def post_def is_set_def bearer_def)
  have p: "JSON_parse rt_demo (concat (chunks (post x ''{}''))) = Some (JObj [])"
    "JSON_parse rt_demo (concat (chunks (post x ''{command''))) = None" for x
    by (simp_all add: rt_demo_def parse_demo_def post_def body_list_def body_toString_def)
  have c: "carries rt_demo (post x body_list) (JStr ''list'')"
    "carries rt_demo (post x body_toString) (JObj [(''toString'', JNum 0)])" for x
    by (simp_all add: carries_def rt_demo_def parse_demo_def post_def body_list_def
        body_toString_def)
  have s: "stringifies (JStr ''list'')" "\<not> stringifies (JObj [(''toString'', JNum 0)])"
    by simp_all
  have pw: "is_set (RCON_PASSWORD cfg_demo)" "\<not> is_set (RCON_PASSWORD (cfg_demo\<lparr>RCON_PASSWORD := None\<rparr>))"
    by (simp_all add: cfg_demo_def is_set_def)
  have 4: "httpServer cfg_demo rt_demo rcon_up (post (Some ''Bearer s3cret'') ''{}'') =
     (\<lparr>status = 400, res_body = ''Missing command''\<rparr>, [])"
    using T[where cfg = cfg_demo and env = rcon_up and req = "post (Some ''Bearer s3cret'') ''{}''"
        and data = "JObj []" and v = None] a p
    by (simp add: truthy_opt_def)
  have 5: "httpServer cfg_demo rt_demo rcon_up (post (Some ''Bearer s3cret'') ''{command'') =
     (\<lparr>status = 500, res_body = ''Internal Error''\<rparr>, [])"
    using T[where cfg = cfg_demo and env = rcon_up
        and req = "post (Some ''Bearer s3cret'') ''{command''"] a p
    by simp
  have 6: "httpServer cfg_demo rt_demo rcon_up (post (Some ''Bearer s3cret'') body_toString) =
     (\<lparr>status = 500, res_body = ''Internal Error''\<rparr>, [])"
    using T[where cfg = cfg_demo and env = rcon_up
        and req = "post (Some ''Bearer s3cret'') body_toString"
        and c = "JObj [(''toString'', JNum 0)]"] a c s
    by simp
  have 7: "httpServer (cfg_demo\<lparr>RCON_PASSWORD := None\<rparr>) rt_demo rcon_up
       (post (Some ''Bearer s3cret'') body_list) =
     (\<lparr>status = 200, res_body = ''OK''\<rparr>, [])"
    using T[where cfg = "cfg_demo\<lparr>RCON_PASSWORD := None\<rparr>" and env = rcon_up
        and req = "post (Some ''Bearer s3cret'') body_list" and c = "JStr ''list''"] a' c s pw
    by simp
  have 8: "httpServer cfg_demo rt_demo rcon_up (post (Some ''Bearer s3cret'') body_list) =
     (\<lparr>status = 200, res_body = ''OK''\<rparr>, [RconConnect, RconSend (JStr ''list''), RconEnd])"
    using T[where cfg = cfg_demo and env = rcon_up
        and req = "post (Some ''Bearer s3cret'') body_list" and c = "JStr ''list''"] a c s pw
    by (simp add: rcon_succeeds_def rcon_up_def)
  have 9: "httpServer cfg_demo rt_demo rcon_down (post (Some ''Bearer s3cret'') body_list) =
     (\<lparr>status = 200, res_body = ''OK''\<rparr>, [RconConnect])"
    using T[where cfg = cfg_demo and env = rcon_down
        and req = "post (Some ''Bearer s3cret'') body_list" and c = "JStr ''list''"] a c s pw
    by (simp add: rcon_succeeds_def rcon_down_def ok_200_def)
  have 10: "httpServer cfg_demo rt_demo rcon_nullish (post (Some ''Bearer s3cret'') body_list) =
     (\<lparr>status = 500, res_body = ''Internal Error''\<rparr>, [RconConnect])"
    using T[where cfg = cfg_demo and env = rcon_nullish
        and req = "post (Some ''Bearer s3cret'') body_list" and c = "JStr ''list''"] a c s pw
    by (simp add: rcon_succeeds_def rcon_nullish_def error_500_def)
  have 11: "httpServer cfg_demo rt_demo rcon_send_fails (post (Some ''Bearer s3cret'') body_list) =
     (\<lparr>status = 200, res_body = ''OK''\<rparr>, [RconConnect, RconSend (JStr ''list'')])"
    using T[where cfg = cfg_demo and env = rcon_send_fails
        and req = "post (Some ''Bearer s3cret'') body_list" and c = "JStr ''list''"] a c s pw
    by (simp add: rcon_succeeds_def rcon_send_fails_def ok_200_def)
  from 1 2 3 4 5 6 7 8 9 10 11 show ?thesis by blast
qed

section \<open>Properties of the cookie renewal\<close>

lemma days_lt_10: "((of_int t :: rat) / (60 * 60 * 24) < 10) = (t < 864000)"
proof -
  have "((of_int t :: rat) / (60 * 60 * 24) < 10) = ((of_int t :: rat) < of_int 864000)"
    by (simp add: field_simps)
  then show ?thesis
    by (simp only: of_int_less_iff)
qed

lemma performRenewal_first_call:
  "\<exists>cs. fst (snd (performRenewal api w now st)) = TokenRequest (CONFIG_COOKIE st) now # cs"
  by (auto simp: performRenewal_def Let_def split: option.splits sum.splits prod.splits)

lemmas renewal_eval = renewCookieIfNeeded_def parseJwt_def sessionToken_def sessionRe_def grp_def
  rt_jwt_def st_of_def percent_def to_number_def days_lt_10 Let_def

text \<open>
  C7, as stated, fails on a payload whose \<^verbatim>\<open>exp\<close> is 0: the field is there and the
  remaining validity is far below 10 days, but the test \<^verbatim>\<open>!payload.exp\<close> takes 0 for a
  missing field and the check ends without a renewal.
\<close>

theorem C7_counterexample:
  "parseJwt rt_jwt (sessionToken (CONFIG_COOKIE (st_of ''session=h.p0.s''))) =
     Some (JObj [(''exp'', JNum 0)]) \<and>
   (0 :: int) - 1700000000000 div 1000 < 10 * (60 * 60 * 24) \<and>
   renewCookieIfNeeded rt_jwt api_good True 1700000000000 (st_of ''session=h.p0.s'') =
     (st_of ''session=h.p0.s'', [], None)"
  by (simp add: renewal_eval)

text \<open>
  C7, amended. When the token of the cookie decodes to an object whose \<^verbatim>\<open>exp\<close> is a
  number other than 0, the renewal exchange is started if and only if \<^verbatim>\<open>exp\<close> minus
  the current time in whole seconds is less than 10 days (864000 seconds); started
  means that the token request, the first of the two calls, is made. With 9 days left
  it is started, with 11 days it is not.
\<close>

theorem C7_renewal_gating:
  assumes "parseJwt rt (sessionToken (CONFIG_COOKIE st)) = Some (JObj ps)"
    and "map_of ps ''exp'' = Some (JNum e)"
    and "e \<noteq> 0"
  shows "renewCookieIfNeeded rt api w now_ms st =
           (if e - now_ms div 1000 < 10 * (60 * 60 * 24) then performRenewal api w now_ms st
            else (st, [], None)) \<and>
         (\<exists>cs. fst (snd (performRenewal api w now_ms st)) =
                 TokenRequest (CONFIG_COOKIE st) now_ms # cs)"
  using assms performRenewal_first_call[of api w now_ms st]
  by (simp add: renewCookieIfNeeded_def to_number_def days_lt_10 Let_def)

theorem C7_renewal_gating_witness:
  "renewCookieIfNeeded rt_jwt api_good True 1700000000000 (st_of ''session=h.p9.s'') =
     performRenewal api_good True 1700000000000 (st_of ''session=h.p9.s'') \<and>
   fst (snd (performRenewal api_good True 1700000000000 (st_of ''session=h.p9.s''))) =
     [TokenRequest ''session=h.p9.s'' 1700000000000, LoginRequest (JStr ''at'')] \<and>
   renewCookieIfNeeded rt_jwt api_good True 1700000000000 (st_of ''session=h.p11.s'') =
     (st_of ''session=h.p11.s'', [], None)"
proof -
  have p9: "parseJwt rt_jwt (sessionToken (CONFIG_COOKIE (st_of ''session=h.p9.s''))) =
      Some (JObj [(''exp'', JNum (1700000000 + 9 * 86400))])"
    and p11: "parseJwt rt_jwt (sessionToken (CONFIG_COOKIE (st_of ''session=h.p11.s''))) =
      Some (JObj [(''exp'', JNum (1700000000 + 11 * 86400))])"
    by (simp_all add: renewal_eval)
  have m: "map_of [(''exp'', JNum x)] ''exp'' = Some (JNum x)" for x by simp
  have 1: "renewCookieIfNeeded rt_jwt api_good True 1700000000000 (st_of ''session=h.p9.s'') =
     performRenewal api_good True 1700000000000 (st_of ''session=h.p9.s'')"
    using C7_renewal_gating[OF p9 m, of api_good True 1700000000000] by simp
  have 2: "renewCookieIfNeeded rt_jwt api_good True 1700000000000 (st_of ''session=h.p11.s'') =
     (st_of ''session=h.p11.s'', [], None)"
    using C7_renewal_gating[OF p11 m, of api_good True 1700000000000] by simp
  have 3: "fst (snd (performRenewal api_good True 1700000000000 (st_of ''session=h.p9.s''))) =
     [TokenRequest ''session=h.p9.s'' 1700000000000, LoginRequest (JStr ''at'')]"
    by (simp add: performRenewal_def login_with_def access_token_of_def update_state_def
        api_good_def resp_def token_ok_def st_of_def truthy_opt_def Let_def)
  from 1 2 3 show ?thesis by blast
qed

text \<open>
  C8. When the token request is answered with a status that is not OK, when its answer
  has no truthy \<^verbatim>\<open>success\<close> or no truthy \<^verbatim>\<open>token\<close>, when the login request is answered
  with a status that is not OK, or when the login answer has no Set-Cookie header, the
  renewal ends with that failure reported and with the cookie in memory and the
  \<^verbatim>\<open>.env\<close> file as they were. The same holds for every failure reported other than a
  failed write of the file, which comes after the cookie in memory was replaced.
\<close>

theorem C8_failure_leaves_state:
  "(api (TokenRequest (CONFIG_COOKIE st) now) = Some r \<and> \<not> ok r \<longrightarrow>
      performRenewal api w now st =
        (st, [TokenRequest (CONFIG_COOKIE st) now], Some (TokenRequestFailed (code r)))) \<and>
   (api (TokenRequest (CONFIG_COOKIE st) now) = Some r \<and> ok r \<and> json_body r = Some d \<and>
      get_prop d ''success'' = Ok sv \<and> get_prop d ''token'' = Ok tv \<and>
      (\<not> truthy_opt sv \<or> \<not> truthy_opt tv) \<longrightarrow>
      performRenewal api w now st =
        (st, [TokenRequest (CONFIG_COOKIE st) now], Some InvalidTokenResponse)) \<and>
   (api (TokenRequest (CONFIG_COOKIE st) now) = Some r \<and> ok r \<and> json_body r = Some d \<and>
      access_token_of d = Inr t \<and> api (LoginRequest t) = Some l \<and> \<not> ok l \<longrightarrow>
      performRenewal api w now st =
        (st, [TokenRequest (CONFIG_COOKIE st) now, LoginRequest t], Some (LoginFailed (code l)))) \<and>
   (api (TokenRequest (CONFIG_COOKIE st) now) = Some r \<and> ok r \<and> json_body r = Some d \<and>
      access_token_of d = Inr t \<and> api (LoginRequest t) = Some l \<and> ok l \<and>
      \<not> is_set (set_cookie l) \<longrightarrow>
      performRenewal api w now st =
        (st, [TokenRequest (CONFIG_COOKIE st) now, LoginRequest t], Some NoSetCookie)) \<and>
   (snd (snd (performRenewal api w now st)) = Some e \<and> e \<noteq> WriteFailed \<longrightarrow>
      fst (performRenewal api w now st) = st)"
proof (intro conjI impI)
  assume "api (TokenRequest (CONFIG_COOKIE st) now) = Some r \<and> \<not> ok r"
  then show "performRenewal api w now st =
        (st, [TokenRequest (CONFIG_COOKIE st) now], Some (TokenRequestFailed (code r)))"
    by (simp add: performRenewal_def Let_def)
next
  assume a: "api (TokenRequest (CONFIG_COOKIE st) now) = Some r \<and> ok r \<and> json_body r = Some d \<and>
      get_prop d ''success'' = Ok sv \<and> get_prop d ''token'' = Ok tv \<and>
      (\<not> truthy_opt sv \<or> \<not> truthy_opt tv)"
  then have "access_token_of d = Inl InvalidTokenResponse"
    by (cases tv) (auto simp: access_token_of_def truthy_opt_def)
  with a show "performRenewal api w now st =
        (st, [TokenRequest (CONFIG_COOKIE st) now], Some InvalidTokenResponse)"
    by (simp add: performRenewal_def Let_def)
next
  assume "api (TokenRequest (CONFIG_COOKIE st) now) = Some r \<and> ok r \<and> json_body r = Some d \<and>
      access_token_of d = Inr t \<and> api (LoginRequest t) = Some l \<and> \<not> ok l"
  then show "performRenewal api w now st =
        (st, [TokenRequest (CONFIG_COOKIE st) now, LoginRequest t], Some (LoginFailed (code l)))"
    by (simp add: performRenewal_def login_with_def Let_def)
next
  assume "api (TokenRequest (CONFIG_COOKIE st) now) = Some r \<and> ok r \<and> json_body r = Some d \<and>
      access_token_of d = Inr t \<and> api (LoginRequest t) = Some l \<and> ok l \<and>
      \<not> is_set (set_cookie l)"
  then show "performRenewal api w now st =
        (st, [TokenRequest (CONFIG_COOKIE st) now, LoginRequest t], Some NoSetCookie)"
    by (auto simp: performRenewal_def login_with_def is_set_def Let_def split: option.splits)
next
  assume "snd (snd (performRenewal api w now st)) = Some e \<and> e \<noteq> WriteFailed"
  then show "fst (performRenewal api w now st) = st"
    by (auto simp: performRenewal_def login_with_def update_state_def Let_def
          split: option.splits sum.splits prod.splits if_splits)
qed

theorem C8_failure_leaves_state_witness:
  "performRenewal api_403 True 5 (st_of ''session=h.p9.s'') =
     (st_of ''session=h.p9.s'', [TokenRequest ''session=h.p9.s'' 5], Some (TokenRequestFailed 403)) \<and>
   performRenewal api_no_token True 5 (st_of ''session=h.p9.s'') =
     (st_of ''session=h.p9.s'', [TokenRequest ''session=h.p9.s'' 5], Some InvalidTokenResponse) \<and>
   performRenewal api_login_401 True 5 (st_of ''session=h.p9.s'') =
     (st_of ''session=h.p9.s'', [TokenRequest ''session=h.p9.s'' 5, LoginRequest (JStr ''at'')],
      Some (LoginFailed 401)) \<and>
   performRenewal api_no_cookie True 5 (st_of ''session=h.p9.s'') =
     (st_of ''session=h.p9.s'', [TokenRequest ''session=h.p9.s'' 5, LoginRequest (JStr ''at'')],
      Some NoSetCookie) \<and>
   fst (performRenewal api_down True 5 (st_of ''session=h.p9.s'')) = st_of ''session=h.p9.s''"
proof -
  let ?st = "st_of ''session=h.p9.s''"
  have c: "CONFIG_COOKIE ?st = ''session=h.p9.s''" by (simp add: st_of_def)
  have t: "access_token_of token_ok = Inr (JStr ''at'')"
    by (simp add: access_token_of_def token_ok_def truthy_opt_def)
  have 1: "performRenewal api_403 True 5 ?st =
     (?st, [TokenRequest ''session=h.p9.s'' 5], Some (TokenRequestFailed 403))"
    using C8_failure_leaves_state[where api = api_403 and st = ?st and now = 5 and w = True
        and r = "resp False 403 None None"]
    by (simp add: c api_403_def resp_def)
  have 2: "performRenewal api_no_token True 5 ?st =
     (?st, [TokenRequest ''session=h.p9.s'' 5], Some InvalidTokenResponse)"
    using C8_failure_leaves_state[where api = api_no_token and st = ?st and now = 5 and w = True
        and r = "resp True 200 (Some (JObj [(''success'', JBool False)])) None"
        and d = "JObj [(''success'', JBool False)]" and sv = "Some (JBool False)" and tv = None]
    by (simp add: c api_no_token_def resp_def truthy_opt_def)
  have 3: "performRenewal api_login_401 True 5 ?st =
     (?st, [TokenRequest ''session=h.p9.s'' 5, LoginRequest (JStr ''at'')], Some (LoginFailed 401))"
    using C8_failure_leaves_state[where api = api_login_401 and st = ?st and now = 5 and w = True
        and r = "resp True 200 (Some token_ok) None" and d = token_ok and t = "JStr ''at''"
        and l = "resp False 401 None None"] t
    by (simp add: c api_login_401_def resp_def)
  have 4: "performRenewal api_no_cookie True 5 ?st =
     (?st, [TokenRequest ''session=h.p9.s'' 5, LoginRequest (JStr ''at'')], Some NoSetCookie)"
    using C8_failure_leaves_state[where api = api_no_cookie and st = ?st and now = 5 and w = True
        and r = "resp True 200 (Some token_ok) None" and d = token_ok and t = "JStr ''at''"
        and l = "resp True 200 None None"] t
    by (simp add: c api_no_cookie_def resp_def is_set_def)
  have "snd (snd (performRenewal api_down True 5 ?st)) = Some Rejected"
    by (simp add: performRenewal_def api_down_def Let_def)
  then have 5: "fst (performRenewal api_down True 5 ?st) = ?st"
    using C8_failure_leaves_state[where api = api_down and st = ?st and now = 5 and w = True
        and e = Rejected]
    by simp
  from 1 2 3 4 5 show ?thesis by blast
qed

end
